theory Spec2Isabelle
  imports Main "HOL-Library.Sublist"
begin

section \<open>Python values and strings\<close>

text \<open>
  The values that cross the library: what \<^verbatim>\<open>response.json()\<close> returns and what callers
  pass as keyword arguments (\<^verbatim>\<open>None\<close>, booleans, integers, floats, strings, lists and
  dicts with string keys). The code never computes with a float, it only tests it for
  truth and prints it, so a float is carried as its \<^verbatim>\<open>repr\<close> text. A dict is an
  association list in insertion order. Characters are the code points below 256.
\<close>

datatype pyval =
    PNone
  | PBool bool
  | PInt int
  | PFloat string
  | PStr string
  | PList "pyval list"
  | PDict "(string \<times> pyval) list"

type_synonym dict = "(string \<times> pyval) list"

definition slash :: char where
  "slash = CHR ''/''"

definition lstrip :: "string \<Rightarrow> string" where
  \<comment> \<open>\<^verbatim>\<open>s.lstrip('/')\<close>\<close>
  "lstrip s = dropWhile (\<lambda>c. c = slash) s"

definition rstrip :: "string \<Rightarrow> string" where
  \<comment> \<open>\<^verbatim>\<open>s.rstrip('/')\<close>\<close>
  "rstrip s = rev (dropWhile (\<lambda>c. c = slash) (rev s))"

fun str_contains :: "string \<Rightarrow> string \<Rightarrow> bool" where
  \<comment> \<open>\<^verbatim>\<open>sub in s\<close> on strings\<close>
  "str_contains sub [] = (sub = [])"
| "str_contains sub (c # cs) = (prefix sub (c # cs) \<or> str_contains sub cs)"

fun str_nat :: "nat \<Rightarrow> string" where
  "str_nat n = (if n < 10 then [''0123456789'' ! n]
                else str_nat (n div 10) @ [''0123456789'' ! (n mod 10)])"

declare str_nat.simps [simp del]

definition str_int :: "int \<Rightarrow> string" where
  \<comment> \<open>\<^verbatim>\<open>str(i)\<close> for an integer\<close>
  "str_int i = (if i < 0 then CHR ''-'' # str_nat (nat (- i)) else str_nat (nat i))"

definition hex2 :: "nat \<Rightarrow> string" where
  "hex2 n = [''0123456789abcdef'' ! (n div 16), ''0123456789abcdef'' ! (n mod 16)]"

definition printable :: "char \<Rightarrow> bool" where
  \<comment> \<open>\<^verbatim>\<open>str.isprintable\<close> on the code points below 256\<close>
  "printable c = (let n = (of_char c :: nat)
                  in 32 \<le> n \<and> n < 127 \<or> 161 \<le> n \<and> n \<noteq> 173)"

definition repr_char :: "char \<Rightarrow> char \<Rightarrow> string" where
  \<comment> \<open>one character inside \<^verbatim>\<open>repr\<close> of a string quoted with \<open>q\<close>\<close>
  "repr_char q c =
     (if c = q \<or> c = CHR 0x5C then [CHR 0x5C, c]
      else if c = CHR 0x09 then [CHR 0x5C, CHR ''t'']
      else if c = CHR 0x0A then [CHR 0x5C, CHR ''n'']
      else if c = CHR 0x0D then [CHR 0x5C, CHR ''r'']
      else if printable c then [c]
      else [CHR 0x5C, CHR ''x''] @ hex2 (of_char c))"

definition repr_str :: "string \<Rightarrow> string" where
  \<comment> \<open>\<^verbatim>\<open>repr(s)\<close>: single quotes unless the string has a single quote and no double quote\<close>
  "repr_str s =
     (let q = (if CHR 0x27 \<in> set s \<and> CHR 0x22 \<notin> set s then CHR 0x22 else CHR 0x27)
      in q # concat (map (repr_char q) s) @ [q])"

fun join_with :: "string \<Rightarrow> string list \<Rightarrow> string" where
  \<comment> \<open>\<^verbatim>\<open>sep.join(parts)\<close>\<close>
  "join_with sep [] = []"
| "join_with sep [p] = p"
| "join_with sep (p # q # ps) = p @ sep @ join_with sep (q # ps)"

fun py_repr :: "pyval \<Rightarrow> string" where
  "py_repr PNone = ''None''"
| "py_repr (PBool b) = (if b then ''True'' else ''False'')"
| "py_repr (PInt i) = str_int i"
| "py_repr (PFloat r) = r"
| "py_repr (PStr s) = repr_str s"
| "py_repr (PList xs) = ''['' @ join_with '', '' (map py_repr xs) @ '']''"
| "py_repr (PDict kvs) =
     ''{'' @ join_with '', '' (map (\<lambda>kv. repr_str (fst kv) @ '': '' @ py_repr (snd kv)) kvs) @ ''}''"

definition py_str :: "pyval \<Rightarrow> string" where
  \<comment> \<open>\<^verbatim>\<open>str(v)\<close>: a string is itself, everything else prints as its \<^verbatim>\<open>repr\<close>\<close>
  "py_str v = (case v of PStr s \<Rightarrow> s | _ \<Rightarrow> py_repr v)"

definition truthy :: "pyval \<Rightarrow> bool" where
  \<comment> \<open>Python's truth value\<close>
  "truthy v = (case v of
       PNone \<Rightarrow> False
     | PBool b \<Rightarrow> b
     | PInt i \<Rightarrow> i \<noteq> 0
     | PFloat r \<Rightarrow> r \<noteq> ''0.0'' \<and> r \<noteq> ''-0.0''
     | PStr s \<Rightarrow> s \<noteq> []
     | PList xs \<Rightarrow> xs \<noteq> []
     | PDict kvs \<Rightarrow> kvs \<noteq> [])"

definition dict_get :: "dict \<Rightarrow> string \<Rightarrow> pyval" where
  \<comment> \<open>\<^verbatim>\<open>d.get(k)\<close>: \<^verbatim>\<open>None\<close> for a missing key\<close>
  "dict_get d k = (case map_of d k of None \<Rightarrow> PNone | Some v \<Rightarrow> v)"

definition dict_set :: "dict \<Rightarrow> string \<Rightarrow> pyval \<Rightarrow> dict" where
  \<comment> \<open>\<^verbatim>\<open>d[k] = v\<close>: an existing key keeps its place\<close>
  "dict_set d k v =
     (if k \<in> fst ` set d then map (\<lambda>kv. if fst kv = k then (k, v) else kv) d else d @ [(k, v)])"

definition setdefault :: "dict \<Rightarrow> string \<Rightarrow> pyval \<Rightarrow> dict" where
  \<comment> \<open>\<^verbatim>\<open>d.setdefault(k, v)\<close>\<close>
  "setdefault d k v = (if k \<in> fst ` set d then d else d @ [(k, v)])"

definition dict_pop :: "dict \<Rightarrow> string \<Rightarrow> dict" where
  \<comment> \<open>the dict left by \<^verbatim>\<open>d.pop(k)\<close> for a key that is present\<close>
  "dict_pop d k = filter (\<lambda>kv. fst kv \<noteq> k) d"

definition json_char :: "char \<Rightarrow> string" where
  \<comment> \<open>one character of a string under \<^verbatim>\<open>json.dumps\<close> (\<^verbatim>\<open>ensure_ascii\<close> on)\<close>
  "json_char c =
     (if c = CHR 0x22 \<or> c = CHR 0x5C then [CHR 0x5C, c]
      else if c = CHR 0x08 then [CHR 0x5C, CHR ''b'']
      else if c = CHR 0x0C then [CHR 0x5C, CHR ''f'']
      else if c = CHR 0x0A then [CHR 0x5C, CHR ''n'']
      else if c = CHR 0x0D then [CHR 0x5C, CHR ''r'']
      else if c = CHR 0x09 then [CHR 0x5C, CHR ''t'']
      else if 32 \<le> (of_char c :: nat) \<and> (of_char c :: nat) \<le> 126 then [c]
      else [CHR 0x5C, CHR ''u'', CHR ''0'', CHR ''0''] @ hex2 (of_char c))"

definition json_string :: "string \<Rightarrow> string" where
  "json_string s = CHR 0x22 # concat (map json_char s) @ [CHR 0x22]"

fun json_dumps :: "pyval \<Rightarrow> string" where
  \<comment> \<open>\<^verbatim>\<open>json.dumps(v)\<close> with its default separators\<close>
  "json_dumps PNone = ''null''"
| "json_dumps (PBool b) = (if b then ''true'' else ''false'')"
| "json_dumps (PInt i) = str_int i"
| "json_dumps (PFloat r) =
     (if r = ''nan'' then ''NaN'' else if r = ''inf'' then ''Infinity''
      else if r = ''-inf'' then ''-Infinity'' else r)"
| "json_dumps (PStr s) = json_string s"
| "json_dumps (PList xs) = ''['' @ join_with '', '' (map json_dumps xs) @ '']''"
| "json_dumps (PDict kvs) =
     ''{'' @ join_with '', '' (map (\<lambda>kv. json_string (fst kv) @ '': '' @ json_dumps (snd kv)) kvs) @ ''}''"

section \<open>utils.py\<close>

definition join2 :: "string \<Rightarrow> string \<Rightarrow> string" where
  \<comment> \<open>the reducer of \<^verbatim>\<open>join_urls\<close>: \<^verbatim>\<open>url1.rstrip('/') + '/' + str(url2).lstrip('/')\<close>\<close>
  "join2 url1 url2 = rstrip url1 @ [slash] @ lstrip url2"

definition join_urls :: "string \<Rightarrow> string list \<Rightarrow> string" where
  \<comment> \<open>\<^verbatim>\<open>join_urls(first, *rest)\<close>; later arguments are passed already converted by \<^verbatim>\<open>str\<close>\<close>
  "join_urls first rest = rstrip (foldl join2 first rest)"

definition strip_prefix :: "string \<Rightarrow> string \<Rightarrow> string" where
  "strip_prefix string pre = (if prefix pre string then drop (length pre) string else string)"

datatype 'a arg = UNSET | Passed 'a

fun passed_kwargs :: "(string \<times> pyval arg) list \<Rightarrow> dict" where
  "passed_kwargs [] = []"
| "passed_kwargs ((k, UNSET) # kwargs) = passed_kwargs kwargs"
| "passed_kwargs ((k, Passed v) # kwargs) = (k, v) # passed_kwargs kwargs"

section \<open>The transport\<close>

record response =
  status_code :: int
  json :: "pyval option"

definition ok :: "response \<Rightarrow> bool" where
  \<comment> \<open>\<^verbatim>\<open>response.ok\<close> of the requests library: false exactly for the statuses 400 to 599\<close>
  "ok r = (\<not> (400 \<le> status_code r \<and> status_code r < 600))"

datatype error =
    ConnectionError string
  | APIError string response "pyval option" "string option"
  | KeyError string
  | OtherError string

fun is_ConnectionError :: "error \<Rightarrow> bool" where
  "is_ConnectionError (ConnectionError m) = True"
| "is_ConnectionError e = False"

record http_request =
  req_method :: string
  req_url :: string
  req_kwargs :: dict

datatype level = DEBUG | INFO | WARNING

datatype log_arg = Str string | Exc error

datatype event =
    Log level string "log_arg list"
  | Sleep nat
  | Send http_request

type_synonym trace = "event list"

fun sent :: "trace \<Rightarrow> http_request list" where
  "sent [] = []"
| "sent (Send r # t) = r # sent t"
| "sent (e # t) = sent t"

datatype outcome = Raises error | Responds response

type_synonym session = "nat \<Rightarrow> http_request \<Rightarrow> outcome"

record client =
  dryrun :: bool
  server :: string
  base_url :: string
  session :: session

type_synonym 'a io = "trace \<Rightarrow> (error + 'a) \<times> trace"

function retry_loop ::
  "nat \<Rightarrow> (error \<Rightarrow> bool) \<Rightarrow> pyval io \<Rightarrow> nat \<Rightarrow> pyval io" where
  "retry_loop num_attempts exception_class func i t =
     (if num_attempts \<le> i then (Inr PNone, t)
      else case func t of
             (Inr v, t1) \<Rightarrow> (Inr v, t1)
           | (Inl e, t1) \<Rightarrow>
               if exception_class e then
                 (if i = num_attempts - 1 then (Inl e, t1)
                  else retry_loop num_attempts exception_class func (i + 1)
                         (t1 @ [Log WARNING ''Failed with error %r, trying again'' [Exc e],
                                Sleep 1]))
               else (Inl e, t1))"
  by pat_completeness auto
termination
  by (relation "measure (\<lambda>(n, ec, f, i, t). n - i)") auto

declare retry_loop.simps [simp del]

definition retry :: "nat \<Rightarrow> (error \<Rightarrow> bool) \<Rightarrow> pyval io \<Rightarrow> pyval io" where
  "retry num_attempts exception_class func = retry_loop num_attempts exception_class func 0"

definition full_url :: "client \<Rightarrow> string" where
  "full_url c = join_urls (server c) [base_url c]"

definition error_of :: "pyval \<Rightarrow> pyval" where
  \<comment> \<open>lines 84 to 86: the \<^verbatim>\<open>error\<close> entry of a parsed dict, \<^verbatim>\<open>None\<close> otherwise\<close>
  "error_of result = (case result of PDict d \<Rightarrow> dict_get d ''error'' | _ \<Rightarrow> PNone)"

definition classify :: "string \<Rightarrow> response \<Rightarrow> error + pyval" where
  \<comment> \<open>lines 76 to 94 of \<^verbatim>\<open>Client.request\<close>: what one attempt makes of a response\<close>
  "classify url r =
     (if status_code r \<in> {502, 503, 504} then
        Inl (ConnectionError (''Server returned code '' @ str_int (status_code r)))
      else case json r of
        None \<Rightarrow> Inl (APIError url r None (Some ''Failed to parse JSON''))
      | Some result \<Rightarrow>
          let err = error_of result
          in if str_contains ''SQLITE_BUSY'' (py_str err) then
               Inl (ConnectionError ''Grist server returned SQLITE_BUSY'')
             else if truthy err \<or> \<not> ok r then Inl (APIError url r (Some result) None)
             else Inr result)"

definition request_func :: "client \<Rightarrow> string \<Rightarrow> string \<Rightarrow> dict \<Rightarrow> pyval io" where
  \<comment> \<open>the undecorated body of \<^verbatim>\<open>Client.request\<close>: one attempt\<close>
  "request_func c method url kwargs t =
     (let url = join_urls (full_url c) [url]
      in if dryrun c \<and> method \<noteq> ''GET'' then
           (Inr PNone,
            t @ [Log INFO ''DRYRUN NOT sending %s request to %s'' [Str method, Str url]])
         else
           let rq = \<lparr>req_method = method, req_url = url, req_kwargs = kwargs\<rparr>;
               t1 = t @ [Log DEBUG ''sending %s request to %s'' [Str method, Str url], Send rq]
           in case session c (length (sent t)) rq of
                Raises e \<Rightarrow> (Inl e, t1)
              | Responds r \<Rightarrow> (classify url r, t1))"

definition request :: "client \<Rightarrow> string \<Rightarrow> string \<Rightarrow> dict \<Rightarrow> pyval io" where
  \<comment> \<open>\<^verbatim>\<open>@retry(5, ConnectionError, log)\<close>\<close>
  "request c method url kwargs = retry 5 is_ConnectionError (request_func c method url kwargs)"

subsection \<open>The verbs and the path cursor\<close>

definition Client_get :: "client \<Rightarrow> string \<Rightarrow> dict \<Rightarrow> pyval io" where
  "Client_get c url kwargs =
     request c ''GET'' url (setdefault kwargs ''allow_redirects'' (PBool True))"

definition Client_options :: "client \<Rightarrow> string \<Rightarrow> dict \<Rightarrow> pyval io" where
  "Client_options c url kwargs =
     request c ''OPTIONS'' url (setdefault kwargs ''allow_redirects'' (PBool True))"

definition Client_head :: "client \<Rightarrow> string \<Rightarrow> dict \<Rightarrow> pyval io" where
  "Client_head c url kwargs =
     request c ''HEAD'' url (setdefault kwargs ''allow_redirects'' (PBool False))"

definition Client_post :: "client \<Rightarrow> string \<Rightarrow> dict \<Rightarrow> pyval io" where
  "Client_post c url kwargs = request c ''POST'' url kwargs"

definition Client_put :: "client \<Rightarrow> string \<Rightarrow> dict \<Rightarrow> pyval io" where
  "Client_put c url kwargs = request c ''PUT'' url kwargs"

definition Client_patch :: "client \<Rightarrow> string \<Rightarrow> dict \<Rightarrow> pyval io" where
  "Client_patch c url kwargs = request c ''PATCH'' url kwargs"

definition Client_delete :: "client \<Rightarrow> string \<Rightarrow> dict \<Rightarrow> pyval io" where
  "Client_delete c url kwargs t =
     request c ''DELETE'' url kwargs
       (t @ [Log INFO ''Sending DELETE request to %s'' [Str (join_urls (base_url c) [url])]])"

definition Client_init :: "string \<Rightarrow> string \<Rightarrow> session \<Rightarrow> bool \<Rightarrow> client" where
  \<comment> \<open>\<^verbatim>\<open>Client(server, base_url, session=session, dryrun=dryrun)\<close>: the constructor called
      with an existing session and no API key\<close>
  "Client_init srv burl sess dry =
     \<lparr>dryrun = dry, server = srv, base_url = strip_prefix burl srv, session = sess\<rparr>"

definition Client_at :: "client \<Rightarrow> string option \<Rightarrow> client" where
  \<comment> \<open>\<^verbatim>\<open>base_url or self.base_url\<close>: \<^verbatim>\<open>None\<close> and the empty string fall back to the
      client's own cursor\<close>
  "Client_at c burl =
     Client_init (server c)
       (case burl of None \<Rightarrow> base_url c | Some u \<Rightarrow> if u \<noteq> [] then u else base_url c)
       (session c) (dryrun c)"

definition truediv :: "client \<Rightarrow> string \<Rightarrow> client" where
  \<comment> \<open>\<^verbatim>\<open>client / other\<close>, with \<open>other\<close> already converted by \<^verbatim>\<open>str\<close>\<close>
  "truediv c other = Client_at c (Some (join_urls (base_url c) [other]))"

definition rsplit_first :: "string \<Rightarrow> string" where
  \<comment> \<open>\<^verbatim>\<open>s.rsplit('/', 1)[0]\<close>: what precedes the last slash, or all of \<open>s\<close> without a slash\<close>
  "rsplit_first s =
     (if slash \<in> set s then rev (tl (dropWhile (\<lambda>c. c \<noteq> slash) (rev s))) else s)"

definition parent :: "client \<Rightarrow> client" where
  "parent c = Client_at c (Some (rsplit_first (rstrip (base_url c))))"

definition descend :: "client \<Rightarrow> string list \<Rightarrow> client" where
  \<comment> \<open>a chain of descents \<^verbatim>\<open>c / s1 / s2 / ...\<close>\<close>
  "descend c segs = foldl truediv c segs"

section \<open>Resource proxies\<close>

text \<open>
  A proxy holds a client and nothing else, so a method of a proxy class is a function of
  the client. The record mappings a caller passes to \<^verbatim>\<open>Records.create\<close> and
  \<^verbatim>\<open>Records.modify\<close> are objects the caller keeps: they live in a heap of dicts and the
  methods get their addresses.
\<close>

type_synonym heap = "nat \<Rightarrow> dict"

definition list_params :: "pyval arg \<Rightarrow> pyval arg \<Rightarrow> pyval arg \<Rightarrow> dict" where
  \<comment> \<open>lines 219 to 221 of \<^verbatim>\<open>WithListRecords.list\<close>\<close>
  "list_params filters sort_by limit =
     (let params = passed_kwargs [(''filters'', filters), (''sort_by'', sort_by), (''limit'', limit)]
      in case filters of
           UNSET \<Rightarrow> params
         | Passed f \<Rightarrow> dict_set params ''filters'' (PStr (json_dumps f)))"

definition WithListRecords_list ::
  "client \<Rightarrow> pyval arg \<Rightarrow> pyval arg \<Rightarrow> pyval arg \<Rightarrow> pyval io" where
  "WithListRecords_list c filters sort_by limit =
     Client_get c [] [(''params'', PDict (list_params filters sort_by limit))]"

definition Org_describe :: "client \<Rightarrow> pyval io" where
  "Org_describe c = Client_get c [] []"

definition Org_delete :: "client \<Rightarrow> pyval io" where
  "Org_delete c = Client_delete c [] []"

definition noparse :: "bool \<Rightarrow> dict" where
  \<comment> \<open>\<^verbatim>\<open>Records._noparse\<close>\<close>
  "noparse parse_strings = (if parse_strings then [] else [(''noparse'', PStr ''true'')])"

definition Records_create ::
  "client \<Rightarrow> nat list \<Rightarrow> bool \<Rightarrow> heap \<times> trace \<Rightarrow> (error + pyval) \<times> heap \<times> trace" where
  "Records_create c records parse_strings s =
     (let h = fst s;
          records = map (\<lambda>record. PDict [(''fields'', PDict (h record))]) records;
          (res, t) = Client_post c [] [(''json'', PDict [(''records'', PList records)]),
                                       (''params'', PDict (noparse parse_strings))] (snd s)
      in (res, h, t))"

fun pop_ids :: "nat list \<Rightarrow> heap \<Rightarrow> (error + (pyval \<times> nat) list) \<times> heap" where
  \<comment> \<open>the comprehension of \<^verbatim>\<open>Records.modify\<close>: \<^verbatim>\<open>record.pop("id")\<close> on each mapping in
      turn, keeping the value with the mapping it came from; a missing key raises\<close>
  "pop_ids [] h = (Inr [], h)"
| "pop_ids (record # records) h =
     (case map_of (h record) ''id'' of
        None \<Rightarrow> (Inl (KeyError ''id''), h)
      | Some v \<Rightarrow>
          (case pop_ids records (h(record := dict_pop (h record) ''id'')) of
             (Inl e, h') \<Rightarrow> (Inl e, h')
           | (Inr ps, h') \<Rightarrow> (Inr ((v, record) # ps), h')))"

definition Records_modify ::
  "client \<Rightarrow> nat list \<Rightarrow> bool \<Rightarrow> heap \<times> trace \<Rightarrow> (error + pyval) \<times> heap \<times> trace" where
  "Records_modify c records parse_strings s =
     (case pop_ids records (fst s) of
        (Inl e, h) \<Rightarrow> (Inl e, h, snd s)
      | (Inr ps, h) \<Rightarrow>
          let records = map (\<lambda>p. PDict [(''id'', fst p), (''fields'', PDict (h (snd p)))]) ps;
              (res, t) = Client_patch c [] [(''json'', PDict [(''records'', PList records)]),
                                            (''params'', PDict (noparse parse_strings))] (snd s)
          in (res, h, t))"

definition Records_create_or_modify :: "client \<Rightarrow> pyval io" where
  "Records_create_or_modify c = Client_put c [] []"

definition Records_delete :: "client \<Rightarrow> pyval io" where
  \<comment> \<open>the body is \<^verbatim>\<open>self.client.parent.post('data/delete')\<close> with no \<^verbatim>\<open>return\<close>: a call
      that does not raise gives \<^verbatim>\<open>None\<close>\<close>
  "Records_delete c t =
     (case Client_post (parent c) ''data/delete'' [] t of
        (Inl e, t') \<Rightarrow> (Inl e, t')
      | (Inr v, t') \<Rightarrow> (Inr PNone, t'))"

section \<open>Vocabulary of the statements\<close>

subsection \<open>About the transport\<close>

definition sending :: "http_request \<Rightarrow> trace" where
  \<comment> \<open>what an attempt that reaches the network adds to the trace\<close>
  "sending rq = [Log DEBUG ''sending %s request to %s'' [Str (req_method rq), Str (req_url rq)], Send rq]"

definition retrying :: "error \<Rightarrow> trace" where
  \<comment> \<open>what the retry loop adds after a caught failure: the warning, then the pause\<close>
  "retrying e = [Log WARNING ''Failed with error %r, trying again'' [Exc e], Sleep 1]"

definition nth_result :: "client \<Rightarrow> http_request \<Rightarrow> nat \<Rightarrow> error + pyval" where
  \<comment> \<open>the outcome of the attempt that makes the session's request number \<open>n\<close>\<close>
  "nth_result c rq n = (case session c n rq of Raises e \<Rightarrow> Inl e | Responds r \<Rightarrow> classify (req_url rq) r)"

definition retryable :: "error + pyval \<Rightarrow> bool" where
  \<comment> \<open>an outcome the retry loop catches: a raised \<open>ConnectionError\<close>\<close>
  "retryable x = (case x of Inl e \<Rightarrow> is_ConnectionError e | Inr v \<Rightarrow> False)"

definition failed_attempt :: "http_request \<Rightarrow> error + pyval \<Rightarrow> trace" where
  \<comment> \<open>the trace of an attempt that is retried\<close>
  "failed_attempt rq x = sending rq @ (case x of Inl e \<Rightarrow> retrying e | Inr v \<Rightarrow> [])"

definition built_request :: "client \<Rightarrow> string \<Rightarrow> string \<Rightarrow> dict \<Rightarrow> http_request" where
  \<comment> \<open>the request \<^verbatim>\<open>Client.request\<close> hands to the session\<close>
  "built_request c method url kwargs =
     \<lparr>req_method = method, req_url = join_urls (full_url c) [url], req_kwargs = kwargs\<rparr>"

definition skipped :: "client \<Rightarrow> string \<Rightarrow> bool" where
  \<comment> \<open>the dry-run gate of line 69\<close>
  "skipped c method = (dryrun c \<and> method \<noteq> ''GET'')"

definition busy :: "response \<Rightarrow> bool" where
  \<comment> \<open>a response that gets parsed (no 502, 503 or 504) into a dict whose \<^verbatim>\<open>error\<close>
      entry prints with the contention marker in it\<close>
  "busy r = (status_code r \<notin> {502, 503, 504} \<and>
     (case json r of
        Some (PDict d) \<Rightarrow> str_contains ''SQLITE_BUSY'' (py_str (dict_get d ''error''))
      | _ \<Rightarrow> False))"

definition busy_error :: error where
  "busy_error = ConnectionError ''Grist server returned SQLITE_BUSY''"

subsection \<open>About paths\<close>

definition strip :: "string \<Rightarrow> string" where
  \<comment> \<open>\<^verbatim>\<open>s.strip('/')\<close>\<close>
  "strip s = rstrip (lstrip s)"

definition piece :: "string \<Rightarrow> string" where
  \<comment> \<open>what a segment adds to a normalized path: nothing when it has only slashes, else a
      slash and the segment without its leading and trailing slashes\<close>
  "piece s = (if strip s = [] then [] else slash # strip s)"

definition normalized_join :: "string \<Rightarrow> string list \<Rightarrow> string" where
  \<comment> \<open>the server address without trailing slashes, then the piece of every later segment\<close>
  "normalized_join srv segs = rstrip srv @ concat (map piece segs)"

definition next_cursor :: "string \<Rightarrow> string \<Rightarrow> string" where
  \<comment> \<open>the cursor that \<^verbatim>\<open>client / other\<close> hands to the constructor\<close>
  "next_cursor b other = (let j = join_urls b [other] in if j \<noteq> [] then j else b)"

definition clash :: "string \<Rightarrow> string \<Rightarrow> bool" where
  \<comment> \<open>the constructor's \<^verbatim>\<open>strip_prefix\<close> would cut the cursor\<close>
  "clash srv cursor = (srv \<noteq> [] \<and> prefix srv cursor)"

fun prefix_free :: "string \<Rightarrow> string \<Rightarrow> string list \<Rightarrow> bool" where
  \<comment> \<open>no cursor formed along the chain of descents starts with the server address\<close>
  "prefix_free srv b [] = True"
| "prefix_free srv b (s # segs) =
     (\<not> clash srv (next_cursor b s) \<and> prefix_free srv (next_cursor b s) segs)"

subsection \<open>About records\<close>

definition hoisted :: "dict \<Rightarrow> pyval" where
  \<comment> \<open>the envelope of a record with its \<^verbatim>\<open>id\<close> beside its other fields\<close>
  "hoisted d = PDict [(''id'', dict_get d ''id''), (''fields'', PDict (dict_pop d ''id''))]"

definition popped :: "nat list \<Rightarrow> heap \<Rightarrow> heap" where
  \<comment> \<open>the heap once the mappings at the given addresses have lost their \<^verbatim>\<open>id\<close>\<close>
  "popped records h = (\<lambda>a. if a \<in> set records then dict_pop (h a) ''id'' else h a)"

section \<open>Sessions and clients used as examples\<close>

definition flaky_session :: session where
  \<comment> \<open>answers 503 four times, then 200 with a JSON list\<close>
  "flaky_session n rq =
     (if n < 4 then Responds \<lparr>status_code = 503, json = None\<rparr>
      else Responds \<lparr>status_code = 200, json = Some (PList [PInt 1])\<rparr>)"

definition flaky_client :: client where
  "flaky_client = \<lparr>dryrun = False, server = ''https://docs.getgrist.com/'', base_url = ''/api/'',
                    session = flaky_session\<rparr>"

definition steady_session :: session where
  \<comment> \<open>always answers 200 with the same JSON dict\<close>
  "steady_session n rq = Responds \<lparr>status_code = 200, json = Some (PDict [(''id'', PInt 7)])\<rparr>"

definition steady_client :: client where
  "steady_client = \<lparr>dryrun = False, server = ''https://docs.getgrist.com/'', base_url = ''/api/'',
                     session = steady_session\<rparr>"

definition dry_client :: client where
  "dry_client = \<lparr>dryrun = True, server = ''https://docs.getgrist.com/'', base_url = ''/api/'',
                  session = steady_session\<rparr>"

definition busy_response :: response where
  "busy_response =
     \<lparr>status_code = 200, json = Some (PDict [(''error'', PStr ''SQLITE_BUSY: database is locked'')])\<rparr>"

definition busy_session :: session where
  "busy_session n rq = Responds busy_response"

definition busy_client :: client where
  "busy_client = \<lparr>dryrun = False, server = ''https://docs.getgrist.com/'', base_url = ''/api/'',
                   session = busy_session\<rparr>"

definition denied_response :: response where
  "denied_response = \<lparr>status_code = 403, json = Some (PDict [(''error'', PStr ''access denied'')])\<rparr>"

definition garbled_response :: response where
  "garbled_response = \<lparr>status_code = 200, json = None\<rparr>"

definition denied_session :: session where
  \<comment> \<open>answers 503 once, then 403 with an error body\<close>
  "denied_session n rq =
     (if n < 1 then Responds \<lparr>status_code = 503, json = None\<rparr> else Responds denied_response)"

definition denied_client :: client where
  "denied_client = \<lparr>dryrun = False, server = ''https://docs.getgrist.com/'', base_url = ''/api/'',
                     session = denied_session\<rparr>"

definition odd_client :: client where
  \<comment> \<open>a client whose cursor starts with its server address\<close>
  "odd_client = \<lparr>dryrun = False, server = ''grist'', base_url = ''grist'', session = steady_session\<rparr>"

definition records_client :: client where
  \<comment> \<open>the client of \<^verbatim>\<open>api.Doc(789).Table('Table1').Records\<close>\<close>
  "records_client = \<lparr>dryrun = False, server = ''https://docs.getgrist.com/'',
                      base_url = ''/api/docs/789/tables/Table1/records'', session = steady_session\<rparr>"

definition pets_heap :: heap where
  \<comment> \<open>address 0 holds \<^verbatim>\<open>{"id": 1, "age": 4}\<close>, address 1 holds \<^verbatim>\<open>{"age": 5}\<close>\<close>
  "pets_heap = (\<lambda>a. [])(0 := [(''id'', PInt 1), (''age'', PInt 4)], 1 := [(''age'', PInt 5)])"

definition choices_response :: response where
  \<comment> \<open>300 Multiple Choices with a JSON list as body\<close>
  "choices_response = \<lparr>status_code = 300, json = Some (PList [])\<rparr>"

definition choices_session :: session where
  "choices_session n rq = Responds choices_response"

definition choices_client :: client where
  "choices_client = \<lparr>dryrun = False, server = ''https://docs.getgrist.com/'', base_url = ''/api/'',
                       session = choices_session\<rparr>"

section \<open>The retry loop\<close>

lemma sent_append: "sent (a @ b) = sent a @ sent b"
  by (induction a rule: sent.induct) auto

lemma sent_sending: "sent (sending rq) = [rq]"
  by (simp add: sending_def)

lemma sent_retrying: "sent (retrying e) = []"
  by (simp add: retrying_def)

lemma request_func_live:
  "\<not> skipped c method \<Longrightarrow>
   request_func c method url kwargs t =
     (nth_result c (built_request c method url kwargs) (length (sent t)),
      t @ sending (built_request c method url kwargs))"
  by (auto simp: request_func_def skipped_def nth_result_def built_request_def sending_def Let_def
           split: outcome.splits)

lemma retry_loop_stop:
  assumes "i < num" "func t = (x, t1)" "\<not> retryable x \<or> i = num - 1"
  shows "retry_loop num is_ConnectionError func i t = (x, t1)"
  using assms
  by (subst retry_loop.simps) (auto simp: retryable_def split: sum.splits)

lemma retry_loop_again:
  assumes "i < num - 1" "func t = (Inl e, t1)" "is_ConnectionError e"
  shows "retry_loop num is_ConnectionError func i t =
         retry_loop num is_ConnectionError func (i + 1) (t1 @ retrying e)"
  using assms
  by (subst retry_loop.simps) (auto simp: retrying_def)

lemma retry_loop_request:
  assumes live: "\<not> skipped c method"
  shows "i + k < num \<Longrightarrow>
     (\<forall>n<k. retryable (nth_result c rq (length (sent t) + n))) \<Longrightarrow>
     (i + k = num - 1 \<or> \<not> retryable (nth_result c rq (length (sent t) + k))) \<Longrightarrow>
     rq = built_request c method url kwargs \<Longrightarrow>
     retry_loop num is_ConnectionError (request_func c method url kwargs) i t =
       (nth_result c rq (length (sent t) + k),
        t @ concat (map (\<lambda>n. failed_attempt rq (nth_result c rq (length (sent t) + n))) [0..<k])
          @ sending rq)"
proof (induction k arbitrary: i t)
  case 0
  have f: "request_func c method url kwargs t =
      (nth_result c rq (length (sent t)), t @ sending rq)"
    using request_func_live[OF live, of url kwargs t] 0 by simp
  have "retry_loop num is_ConnectionError (request_func c method url kwargs) i t =
      (nth_result c rq (length (sent t)), t @ sending rq)"
    using retry_loop_stop[of i num "request_func c method url kwargs" t
        "nth_result c rq (length (sent t))" "t @ sending rq"] f 0
    by auto
  then show ?case by simp
next
  case (Suc k)
  let ?N = "length (sent t)"
  from Suc.prems have r0: "retryable (nth_result c rq ?N)" by force
  then obtain e where e: "nth_result c rq ?N = Inl e" "is_ConnectionError e"
    by (auto simp: retryable_def split: sum.splits)
  let ?t' = "t @ sending rq @ retrying e"
  have len: "length (sent ?t') = Suc ?N"
    by (simp add: sent_append sent_sending sent_retrying)
  have step: "retry_loop num is_ConnectionError (request_func c method url kwargs) i t =
      retry_loop num is_ConnectionError (request_func c method url kwargs) (i + 1) ?t'"
  proof -
    have f: "request_func c method url kwargs t = (Inl e, t @ sending rq)"
      using request_func_live[OF live, of url kwargs t] Suc.prems e by simp
    have "i < num - 1" using Suc.prems by simp
    then show ?thesis
      using retry_loop_again[of i num "request_func c method url kwargs" t e "t @ sending rq"]
        f e(2) by simp
  qed
  have ih: "retry_loop num is_ConnectionError (request_func c method url kwargs) (i + 1) ?t' =
       (nth_result c rq (length (sent ?t') + k),
        ?t' @ concat (map (\<lambda>n. failed_attempt rq (nth_result c rq (length (sent ?t') + n))) [0..<k])
          @ sending rq)"
  proof (rule Suc.IH)
    show "i + 1 + k < num" using Suc.prems by simp
    show "\<forall>n<k. retryable (nth_result c rq (length (sent ?t') + n))"
    proof (intro allI impI)
      fix n assume "n < k"
      then have "Suc n < Suc k" by simp
      with Suc.prems(2) have "retryable (nth_result c rq (?N + Suc n))" by blast
      then show "retryable (nth_result c rq (length (sent ?t') + n))" by (simp add: len)
    qed
    show "i + 1 + k = num - 1 \<or> \<not> retryable (nth_result c rq (length (sent ?t') + k))"
      using Suc.prems(3) by (simp add: len)
    show "rq = built_request c method url kwargs" using Suc.prems by simp
  qed
  have fa: "failed_attempt rq (nth_result c rq ?N) = sending rq @ retrying e"
    by (simp add: failed_attempt_def e)
  have shift: "map (\<lambda>n. failed_attempt rq (nth_result c rq (?N + n))) [0..<Suc k] =
      failed_attempt rq (nth_result c rq ?N) #
      map (\<lambda>n. failed_attempt rq (nth_result c rq (Suc ?N + n))) [0..<k]"
    by (simp add: map_upt_Suc del: upt_Suc)
  show ?case
    unfolding step ih len shift by (simp add: fa)
qed


lemma request_run:
  assumes "\<not> skipped c method" "rq = built_request c method url kwargs" "k \<le> 4"
    "\<forall>n<k. retryable (nth_result c rq (length (sent t) + n))"
    "k = 4 \<or> \<not> retryable (nth_result c rq (length (sent t) + k))"
  shows "request c method url kwargs t =
     (nth_result c rq (length (sent t) + k),
      t @ concat (map (\<lambda>n. failed_attempt rq (nth_result c rq (length (sent t) + n))) [0..<k])
        @ sending rq)"
  unfolding request_def retry_def
  using assms by (intro retry_loop_request) auto

lemma sent_failed_attempts:
  "sent (concat (map (\<lambda>n. failed_attempt rq (g n)) ns)) = replicate (length ns) rq"
  by (induction ns)
     (auto simp: sent_append failed_attempt_def sent_sending sent_retrying split: sum.splits)

lemma request_skipped:
  "skipped c method \<Longrightarrow> request c method url kwargs t =
     (Inr PNone, t @ [Log INFO ''DRYRUN NOT sending %s request to %s''
                        [Str method, Str (join_urls (full_url c) [url])]])"
  unfolding request_def retry_def
  by (subst retry_loop.simps) (simp add: request_func_def skipped_def Let_def)

lemma stop_index:
  fixes P :: "nat \<Rightarrow> bool"
  shows "\<exists>k\<le>4. (\<forall>n<k. P n) \<and> (k = 4 \<or> \<not> P k)"
proof (cases "\<exists>n<4. \<not> P n")
  case True
  then obtain n where n: "n < 4" "\<not> P n" by blast
  define k where "k = (LEAST n. \<not> P n)"
  have "\<not> P k" unfolding k_def using n(2) by (rule LeastI)
  moreover have "k \<le> n" unfolding k_def using n(2) by (rule Least_le)
  moreover have "\<forall>m<k. P m" unfolding k_def using not_less_Least by blast
  ultimately show ?thesis using n(1) by (intro exI[of _ k]) auto
next
  case False
  then show ?thesis by (intro exI[of _ 4]) auto
qed

lemma request_sends_at_most_5:
  "length (sent (snd (request c method url kwargs t))) \<le> length (sent t) + 5"
proof (cases "skipped c method")
  case True
  then show ?thesis by (simp add: request_skipped sent_append)
next
  case False
  obtain k where k: "k \<le> 4"
    "\<forall>n<k. retryable (nth_result c (built_request c method url kwargs) (length (sent t) + n))"
    "k = 4 \<or> \<not> retryable (nth_result c (built_request c method url kwargs) (length (sent t) + k))"
    using stop_index[of "\<lambda>n. retryable (nth_result c (built_request c method url kwargs) (length (sent t) + n))"]
    by blast
  show ?thesis
    using k(1)
    by (simp add: request_run[OF False refl k] sent_append sent_failed_attempts sent_sending)
qed


text \<open>
  Claim C1. A call through \<^verbatim>\<open>Client.request\<close> that is not skipped by dry-run makes its
  attempts one after the other against the session. If the first \<open>k\<close> attempts (\<open>k \<le> 4\<close>)
  fail retryably, each is followed by a warning and a one-second sleep, and attempt \<open>k + 1\<close>
  either does not fail retryably or is the fifth, then the call ends with the outcome of
  attempt \<open>k + 1\<close>: the value of a successful attempt, or the error of a failed one as it
  is. When all five attempts fail retryably the caller gets a \<open>ConnectionError\<close>. No call
  sends more than five requests. A response with status 502, 503 or 504 and a
  \<open>ConnectionError\<close> raised by the session are retryable failures.
\<close>

theorem request_retry_policy:
  "\<not> skipped c method \<Longrightarrow>
   (let rq = built_request c method url kwargs;
        res = (\<lambda>n. nth_result c rq (length (sent t) + n))
    in (\<forall>k\<le>4. (\<forall>n<k. retryable (res n)) \<and> (k = 4 \<or> \<not> retryable (res k)) \<longrightarrow>
          request c method url kwargs t =
            (res k, t @ concat (map (\<lambda>n. failed_attempt rq (res n)) [0..<k]) @ sending rq))
     \<and> ((\<forall>n<5. retryable (res n)) \<longrightarrow>
          (\<exists>m. fst (request c method url kwargs t) = Inl (ConnectionError m)))
     \<and> length (sent (snd (request c method url kwargs t))) \<le> length (sent t) + 5
     \<and> (status_code r \<in> {502, 503, 504} \<longrightarrow> retryable (classify u r))
     \<and> retryable (Inl (ConnectionError msg)))"
proof -
  assume live: "\<not> skipped c method"
  have C: "status_code r \<in> {502, 503, 504} \<longrightarrow> retryable (classify u r)"
    by (simp add: classify_def retryable_def)
  have D: "retryable (Inl (ConnectionError msg))"
    by (simp add: retryable_def)
  let ?rq = "built_request c method url kwargs"
  let ?res = "\<lambda>n. nth_result c ?rq (length (sent t) + n)"
  have A: "\<forall>k\<le>4. (\<forall>n<k. retryable (?res n)) \<and> (k = 4 \<or> \<not> retryable (?res k)) \<longrightarrow>
          request c method url kwargs t =
            (?res k, t @ concat (map (\<lambda>n. failed_attempt ?rq (?res n)) [0..<k]) @ sending ?rq)"
    using request_run[OF live refl] by blast
  have B: "(\<forall>n<5. retryable (?res n)) \<longrightarrow>
          (\<exists>m. fst (request c method url kwargs t) = Inl (ConnectionError m))"
  proof
    assume all: "\<forall>n<5. retryable (?res n)"
    then have "request c method url kwargs t =
            (?res 4, t @ concat (map (\<lambda>n. failed_attempt ?rq (?res n)) [0..<4]) @ sending ?rq)"
      using A by auto
    moreover from all have "retryable (?res 4)" by simp
    then obtain m where "?res 4 = Inl (ConnectionError m)"
      by (auto simp: retryable_def split: sum.splits elim: is_ConnectionError.elims)
    ultimately show "\<exists>m. fst (request c method url kwargs t) = Inl (ConnectionError m)" by simp
  qed
  show ?thesis
    unfolding Let_def using A B C D request_sends_at_most_5 by blast
qed

theorem request_retry_policy_witness:
  "\<not> skipped flaky_client ''GET'' \<and>
   fst (request flaky_client ''GET'' ''orgs'' [] []) = Inr (PList [PInt 1]) \<and>
   length (sent (snd (request flaky_client ''GET'' ''orgs'' [] []))) = 5 \<and>
   count_list (snd (request flaky_client ''GET'' ''orgs'' [] [])) (Sleep 1) = 4"
proof -
  let ?rq = "built_request flaky_client ''GET'' ''orgs'' []"
  let ?res = "\<lambda>n. nth_result flaky_client ?rq (length (sent []) + n)"
  have live: "\<not> skipped flaky_client ''GET''"
    by (simp add: skipped_def)
  have fails: "\<forall>n<4. retryable (?res n)"
    by (simp add: nth_result_def flaky_client_def flaky_session_def classify_def retryable_def)
  have last: "?res 4 = Inr (PList [PInt 1])"
    by (simp add: nth_result_def flaky_client_def flaky_session_def classify_def error_of_def
        py_str_def ok_def truthy_def)
  have "\<forall>k\<le>4. (\<forall>n<k. retryable (?res n)) \<and> (k = 4 \<or> \<not> retryable (?res k)) \<longrightarrow>
          request flaky_client ''GET'' ''orgs'' [] [] =
            (?res k, [] @ concat (map (\<lambda>n. failed_attempt ?rq (?res n)) [0..<k]) @ sending ?rq)"
    using request_retry_policy[OF live, of "''orgs''" "[]" "[]"] unfolding Let_def by blast
  then have run: "request flaky_client ''GET'' ''orgs'' [] [] =
            (?res 4, [] @ concat (map (\<lambda>n. failed_attempt ?rq (?res n)) [0..<4]) @ sending ?rq)"
    using fails by auto
  have each:
    "nth_result flaky_client ?rq 0 = Inl (ConnectionError ''Server returned code 503'')"
    "nth_result flaky_client ?rq (Suc 0) = Inl (ConnectionError ''Server returned code 503'')"
    "nth_result flaky_client ?rq 2 = Inl (ConnectionError ''Server returned code 503'')"
    "nth_result flaky_client ?rq 3 = Inl (ConnectionError ''Server returned code 503'')"
    by (simp_all add: nth_result_def flaky_client_def flaky_session_def classify_def
        str_int_def str_nat.simps)
  have u: "[0..<4] = [0, 1, 2, 3::nat]"
    by (simp add: upt_rec)
  have "count_list (concat (map (\<lambda>n. failed_attempt ?rq (?res n)) [0..<4]) @ sending ?rq) (Sleep 1) = 4"
    unfolding u by (simp add: each failed_attempt_def sending_def retrying_def)
  then show ?thesis
    using live last by (simp add: run sent_append sent_failed_attempts sent_sending)
qed

lemmas url_defs = join_urls_def join2_def lstrip_def rstrip_def slash_def full_url_def

lemma sent_failed_attempt: "sent (failed_attempt rq x) = [rq]"
  by (simp add: failed_attempt_def sent_append sent_sending sent_retrying split: sum.splits)

lemmas classify_defs = classify_def error_of_def dict_get_def py_str_def truthy_def ok_def

lemma no_marker_in_None: "\<not> str_contains ''SQLITE_BUSY'' (py_str PNone)"
  by (simp add: py_str_def)

lemma busy_iff:
  "busy r \<longleftrightarrow> status_code r \<notin> {502, 503, 504} \<and>
     (\<exists>result. json r = Some result \<and> str_contains ''SQLITE_BUSY'' (py_str (error_of result)))"
  using no_marker_in_None
  by (auto simp: busy_def error_of_def split: option.splits pyval.splits)

lemma classify_busy: "busy r \<Longrightarrow> classify url r = Inl busy_error"
  unfolding busy_iff by (auto simp: classify_def busy_error_def)

lemma classify_not_busy:
  "status_code r \<notin> {502, 503, 504} \<Longrightarrow> \<not> busy r \<Longrightarrow> \<not> retryable (classify url r)"
  unfolding busy_iff
  by (cases "json r") (auto simp: classify_def retryable_def Let_def)

section \<open>Dry-run\<close>

text \<open>
  Claim C3, as the code has it. The gate of \<^verbatim>\<open>Client.request\<close> compares the verb with the
  string \<^verbatim>\<open>'GET'\<close>. In dry-run mode a call with any other verb, HEAD and OPTIONS
  among them, sends nothing, logs that it was skipped and returns \<^verbatim>\<open>None\<close>; a call with
  the verb GET runs exactly as it does with dry-run off.
\<close>

theorem dryrun_gate:
  "dryrun c \<Longrightarrow>
   (method \<noteq> ''GET'' \<longrightarrow>
      request c method url kwargs t =
        (Inr PNone, t @ [Log INFO ''DRYRUN NOT sending %s request to %s''
                           [Str method, Str (join_urls (full_url c) [url])]])
      \<and> sent (snd (request c method url kwargs t)) = sent t)
   \<and> (method = ''GET'' \<longrightarrow>
      request c method url kwargs t = request (c\<lparr>dryrun := False\<rparr>) method url kwargs t)"
proof -
  assume d: "dryrun c"
  have get: "request_func c ''GET'' url kwargs = request_func (c\<lparr>dryrun := False\<rparr>) ''GET'' url kwargs"
    by (rule ext) (simp add: request_func_def full_url_def)
  have sk: "method \<noteq> ''GET'' \<Longrightarrow> skipped c method"
    using d by (simp add: skipped_def)
  have a: "method \<noteq> ''GET'' \<longrightarrow>
      request c method url kwargs t =
        (Inr PNone, t @ [Log INFO ''DRYRUN NOT sending %s request to %s''
                           [Str method, Str (join_urls (full_url c) [url])]])
      \<and> sent (snd (request c method url kwargs t)) = sent t"
    using sk by (simp add: request_skipped sent_append)
  have b: "method = ''GET'' \<longrightarrow>
      request c method url kwargs t = request (c\<lparr>dryrun := False\<rparr>) method url kwargs t"
    by (simp add: request_def get)
  from a b show ?thesis by blast
qed

theorem dryrun_gate_witness:
  "dryrun dry_client \<and>
   request dry_client ''POST'' ''orgs'' [] [] =
     (Inr PNone, [Log INFO ''DRYRUN NOT sending %s request to %s''
                    [Str ''POST'', Str ''https://docs.getgrist.com/api/orgs'']]) \<and>
   request dry_client ''GET'' ''orgs'' [] [] = request (dry_client\<lparr>dryrun := False\<rparr>) ''GET'' ''orgs'' [] []"
proof -
  have d: "dryrun dry_client" by (simp add: dry_client_def)
  have u: "join_urls (full_url dry_client) [''orgs''] = ''https://docs.getgrist.com/api/orgs''"
    by (simp add: url_defs dry_client_def)
  show ?thesis
    using dryrun_gate[OF d, of "''POST''" "''orgs''" "[]" "[]"]
      dryrun_gate[OF d, of "''GET''" "''orgs''" "[]" "[]"] d
    by (simp add: u)
qed

text \<open>
  Claim C3 as stated counts HEAD among the safe reads that are always executed.
  \<^verbatim>\<open>Client.head\<close> on a dry-run client sends nothing and returns \<^verbatim>\<open>None\<close>, while the same
  call with dry-run off sends one request and returns the body.
\<close>

theorem dryrun_head_counterexample:
  "Client_head dry_client ''orgs'' [] [] =
     (Inr PNone, [Log INFO ''DRYRUN NOT sending %s request to %s''
                    [Str ''HEAD'', Str ''https://docs.getgrist.com/api/orgs'']]) \<and>
   sent (snd (Client_head dry_client ''orgs'' [] [])) = [] \<and>
   fst (Client_head (dry_client\<lparr>dryrun := False\<rparr>) ''orgs'' [] []) = Inr (PDict [(''id'', PInt 7)]) \<and>
   length (sent (snd (Client_head (dry_client\<lparr>dryrun := False\<rparr>) ''orgs'' [] []))) = 1"
proof -
  have u: "join_urls (full_url dry_client) [''orgs''] = ''https://docs.getgrist.com/api/orgs''"
    by (simp add: url_defs dry_client_def)
  have s: "skipped dry_client ''HEAD''" by (simp add: skipped_def dry_client_def)
  have dry: "Client_head dry_client ''orgs'' [] [] =
     (Inr PNone, [Log INFO ''DRYRUN NOT sending %s request to %s''
                    [Str ''HEAD'', Str ''https://docs.getgrist.com/api/orgs'']])"
    unfolding Client_head_def by (simp add: request_skipped[OF s] u)
  have l: "\<not> skipped (dry_client\<lparr>dryrun := False\<rparr>) ''HEAD''" by (simp add: skipped_def)
  have r: "nth_result (dry_client\<lparr>dryrun := False\<rparr>) rq 0 = Inr (PDict [(''id'', PInt 7)])" for rq
    by (simp add: nth_result_def dry_client_def steady_session_def classify_def error_of_def
        dict_get_def py_str_def truthy_def ok_def)
  have live: "Client_head (dry_client\<lparr>dryrun := False\<rparr>) ''orgs'' [] [] =
      (Inr (PDict [(''id'', PInt 7)]),
       sending (built_request (dry_client\<lparr>dryrun := False\<rparr>) ''HEAD'' ''orgs''
                  (setdefault [] ''allow_redirects'' (PBool False))))"
    unfolding Client_head_def
    using request_run[where k=0 and t="[]" and url="''orgs''"
        and kwargs="setdefault [] ''allow_redirects'' (PBool False)", OF l refl]
    by (simp add: r retryable_def)
  show ?thesis by (simp add: dry live sent_sending)
qed

section \<open>Contention is retried\<close>

text \<open>
  Claim C4. A parsed response that is a dict whose \<^verbatim>\<open>error\<close> entry prints with
  \<^verbatim>\<open>SQLITE_BUSY\<close> in it makes the attempt raise a \<open>ConnectionError\<close>, the class the retry
  loop catches. A call whose first \<open>k\<close> attempts (\<open>k \<le> 4\<close>) all get such a response logs a
  warning and sleeps one second after each of them and goes on; it ends with the outcome
  of attempt \<open>k + 1\<close>, which is the contention error itself only when that attempt is the
  fifth.
\<close>

theorem busy_is_retried:
  "(busy r \<longrightarrow> classify url r = Inl busy_error \<and> is_ConnectionError busy_error)
   \<and> (\<not> skipped c method \<and> rq = built_request c method url kwargs \<and> k \<le> 4
        \<and> (\<forall>n<k. \<exists>r'. session c (length (sent t) + n) rq = Responds r' \<and> busy r')
        \<and> (k = 4 \<or> \<not> retryable (nth_result c rq (length (sent t) + k))) \<longrightarrow>
      request c method url kwargs t =
        (nth_result c rq (length (sent t) + k),
         t @ concat (replicate k (sending rq @ retrying busy_error)) @ sending rq))"
proof (intro conjI impI)
  assume "busy r"
  then show "classify url r = Inl busy_error" by (rule classify_busy)
next
  show "is_ConnectionError busy_error" by (simp add: busy_error_def)
next
  assume h: "\<not> skipped c method \<and> rq = built_request c method url kwargs \<and> k \<le> 4
        \<and> (\<forall>n<k. \<exists>r'. session c (length (sent t) + n) rq = Responds r' \<and> busy r')
        \<and> (k = 4 \<or> \<not> retryable (nth_result c rq (length (sent t) + k)))"
  have each: "nth_result c rq (length (sent t) + n) = Inl busy_error" if "n < k" for n
  proof -
    from h that obtain r' where "session c (length (sent t) + n) rq = Responds r'" "busy r'"
      by blast
    then show ?thesis by (simp add: nth_result_def classify_busy)
  qed
  have fails: "\<forall>n<k. retryable (nth_result c rq (length (sent t) + n))"
    by (simp add: each retryable_def busy_error_def)
  have "map (\<lambda>n. failed_attempt rq (nth_result c rq (length (sent t) + n))) [0..<k] =
        map (\<lambda>n. sending rq @ retrying busy_error) [0..<k]"
    by (rule map_cong) (simp_all add: each failed_attempt_def)
  then have tr: "map (\<lambda>n. failed_attempt rq (nth_result c rq (length (sent t) + n))) [0..<k] =
        replicate k (sending rq @ retrying busy_error)"
    by (simp add: map_replicate_const)
  show "request c method url kwargs t =
        (nth_result c rq (length (sent t) + k),
         t @ concat (replicate k (sending rq @ retrying busy_error)) @ sending rq)"
  proof -
    from h have live: "\<not> skipped c method" and rqd: "rq = built_request c method url kwargs"
      and k4: "k \<le> 4"
      and stop: "k = 4 \<or> \<not> retryable (nth_result c rq (length (sent t) + k))"
      by blast+
    show ?thesis
      by (simp only: request_run[OF live rqd k4 fails stop] tr)
  qed
qed

theorem busy_is_retried_witness:
  "busy busy_response \<and> classify ''orgs'' busy_response = Inl busy_error \<and>
   \<not> skipped busy_client ''GET'' \<and>
   fst (request busy_client ''GET'' ''orgs'' [] []) = Inl busy_error \<and>
   length (sent (snd (request busy_client ''GET'' ''orgs'' [] []))) = 5 \<and>
   count_list (snd (request busy_client ''GET'' ''orgs'' [] [])) (Sleep 1) = 4"
proof -
  let ?rq = "built_request busy_client ''GET'' ''orgs'' []"
  have b: "busy busy_response"
    by (simp add: busy_def busy_response_def py_str_def dict_get_def)
  have l: "\<not> skipped busy_client ''GET''" by (simp add: skipped_def)
  have s: "\<forall>n<4. \<exists>r'. session busy_client (length (sent []) + n) ?rq = Responds r' \<and> busy r'"
    using b by (simp add: busy_client_def busy_session_def)
  have last: "nth_result busy_client ?rq 4 = Inl busy_error"
    using busy_is_retried[of busy_response "req_url ?rq"] b
    by (simp add: nth_result_def busy_client_def busy_session_def)
  have run: "request busy_client ''GET'' ''orgs'' [] [] =
        (nth_result busy_client ?rq (length (sent []) + 4),
         [] @ concat (replicate 4 (sending ?rq @ retrying busy_error)) @ sending ?rq)"
    using busy_is_retried[of busy_response "''orgs''" busy_client "''GET''" ?rq "[]" 4 "[]"] l s
    by blast
  have r4: "replicate 4 x = [x, x, x, x]" for x :: trace
    by (simp add: numeral_eq_Suc)
  show ?thesis
    using b l busy_is_retried[of busy_response "''orgs''"] last
    by (simp add: run r4 sent_append sent_sending sent_retrying sending_def retrying_def)
qed

section \<open>Responses that are not retried\<close>

text \<open>
  Claim C2, as the code has it. For a response whose status is not 502, 503 or 504: a body
  that does not parse raises the API error with no parsed body and the message
  \<^verbatim>\<open>Failed to parse JSON\<close>; a parsed body whose error value does not print with the
  contention marker raises the API error carrying the parsed body when the error value
  is truthy or the status is between 400 and 599, and is returned as it is otherwise.
  Such an attempt ends the call: nothing is sent after it.
\<close>

theorem response_handling:
  "status_code r \<notin> {502, 503, 504} \<Longrightarrow>
   (json r = None \<longrightarrow> classify url r = Inl (APIError url r None (Some ''Failed to parse JSON'')))
   \<and> (\<forall>result. json r = Some result \<and> \<not> str_contains ''SQLITE_BUSY'' (py_str (error_of result)) \<longrightarrow>
         classify url r =
           (if truthy (error_of result) \<or> (400 \<le> status_code r \<and> status_code r < 600)
            then Inl (APIError url r (Some result) None) else Inr result))
   \<and> (\<not> skipped c method \<and> rq = built_request c method url kwargs \<and> k \<le> 4
        \<and> (\<forall>n<k. retryable (nth_result c rq (length (sent t) + n)))
        \<and> session c (length (sent t) + k) rq = Responds r \<and> \<not> busy r \<longrightarrow>
       request c method url kwargs t =
         (classify (req_url rq) r,
          t @ concat (map (\<lambda>n. failed_attempt rq (nth_result c rq (length (sent t) + n))) [0..<k])
            @ sending rq))"
proof -
  assume st: "status_code r \<notin> {502, 503, 504}"
  have a: "json r = None \<longrightarrow> classify url r = Inl (APIError url r None (Some ''Failed to parse JSON''))"
    using st by (simp add: classify_def)
  have b: "\<forall>result. json r = Some result \<and> \<not> str_contains ''SQLITE_BUSY'' (py_str (error_of result)) \<longrightarrow>
         classify url r =
           (if truthy (error_of result) \<or> (400 \<le> status_code r \<and> status_code r < 600)
            then Inl (APIError url r (Some result) None) else Inr result)"
    using st by (simp add: classify_def ok_def)
  have c: "\<not> skipped c method \<and> rq = built_request c method url kwargs \<and> k \<le> 4
        \<and> (\<forall>n<k. retryable (nth_result c rq (length (sent t) + n)))
        \<and> session c (length (sent t) + k) rq = Responds r \<and> \<not> busy r \<longrightarrow>
       request c method url kwargs t =
         (classify (req_url rq) r,
          t @ concat (map (\<lambda>n. failed_attempt rq (nth_result c rq (length (sent t) + n))) [0..<k])
            @ sending rq)"
  proof
    assume h: "\<not> skipped c method \<and> rq = built_request c method url kwargs \<and> k \<le> 4
        \<and> (\<forall>n<k. retryable (nth_result c rq (length (sent t) + n)))
        \<and> session c (length (sent t) + k) rq = Responds r \<and> \<not> busy r"
    then have "session c (length (sent t) + k) rq = Responds r" by blast
    then have res: "nth_result c rq (length (sent t) + k) = classify (req_url rq) r"
      by (simp add: nth_result_def)
    have "\<not> retryable (classify (req_url rq) r)"
      using classify_not_busy[OF st] h by blast
    then show "request c method url kwargs t =
         (classify (req_url rq) r,
          t @ concat (map (\<lambda>n. failed_attempt rq (nth_result c rq (length (sent t) + n))) [0..<k])
            @ sending rq)"
    proof -
      from h have live: "\<not> skipped c method" and rqd: "rq = built_request c method url kwargs"
        and k4: "k \<le> 4"
        and fails: "\<forall>n<k. retryable (nth_result c rq (length (sent t) + n))"
        by blast+
      assume "\<not> retryable (classify (req_url rq) r)"
      then have stop: "k = 4 \<or> \<not> retryable (nth_result c rq (length (sent t) + k))"
        by (simp only: res simp_thms)
      show ?thesis
        by (simp only: request_run[OF live rqd k4 fails stop] res)
    qed
  qed
  from a b c show ?thesis by blast
qed

theorem response_handling_witness:
  "status_code garbled_response \<notin> {502, 503, 504} \<and>
   classify ''u'' garbled_response =
     Inl (APIError ''u'' garbled_response None (Some ''Failed to parse JSON'')) \<and>
   classify ''u'' denied_response =
     Inl (APIError ''u'' denied_response (Some (PDict [(''error'', PStr ''access denied'')])) None) \<and>
   fst (request denied_client ''GET'' ''orgs'' [] []) =
     Inl (APIError ''https://docs.getgrist.com/api/orgs'' denied_response
            (Some (PDict [(''error'', PStr ''access denied'')])) None) \<and>
   length (sent (snd (request denied_client ''GET'' ''orgs'' [] []))) = 2"
proof -
  let ?rq = "built_request denied_client ''GET'' ''orgs'' []"
  have g: "status_code garbled_response \<notin> {502, 503, 504}" "json garbled_response = None"
    by (simp_all add: garbled_response_def)
  have d: "status_code denied_response \<notin> {502, 503, 504}"
    "json denied_response = Some (PDict [(''error'', PStr ''access denied'')])"
    "\<not> str_contains ''SQLITE_BUSY'' (py_str (error_of (PDict [(''error'', PStr ''access denied'')])))"
    "truthy (error_of (PDict [(''error'', PStr ''access denied'')]))"
    by (simp_all add: denied_response_def error_of_def dict_get_def py_str_def truthy_def)
  have nb: "\<not> busy denied_response"
    by (simp add: busy_def denied_response_def dict_get_def py_str_def)
  have l: "\<not> skipped denied_client ''GET''" by (simp add: skipped_def)
  have u: "req_url ?rq = ''https://docs.getgrist.com/api/orgs''"
    by (simp add: built_request_def url_defs denied_client_def)
  have first: "\<forall>n<1. retryable (nth_result denied_client ?rq (length (sent []) + n))"
    by (simp add: nth_result_def denied_client_def denied_session_def classify_def retryable_def)
  have s: "session denied_client (length (sent []) + 1) ?rq = Responds denied_response"
    by (simp add: denied_client_def denied_session_def)
  have c1: "classify ''u'' garbled_response =
     Inl (APIError ''u'' garbled_response None (Some ''Failed to parse JSON''))"
    using response_handling[OF g(1), of "''u''"] g(2) by blast
  have c2: "classify url denied_response =
     Inl (APIError url denied_response (Some (PDict [(''error'', PStr ''access denied'')])) None)" for url
    using response_handling[OF d(1), of url] d(2,3,4) by simp
  have run: "request denied_client ''GET'' ''orgs'' [] [] =
         (classify (req_url ?rq) denied_response,
          [] @ concat (map (\<lambda>n. failed_attempt ?rq (nth_result denied_client ?rq (length (sent []) + n))) [0..<1])
            @ sending ?rq)"
  proof -
    have one: "(1::nat) \<le> 4" by simp
    have rqd: "?rq = built_request denied_client ''GET'' ''orgs'' []" by (rule refl)
    note th = response_handling[OF d(1), of "''orgs''" denied_client "''GET''" ?rq "[]" 1 "[]"]
    from th have imp: "\<not> skipped denied_client ''GET'' \<and> ?rq = built_request denied_client ''GET'' ''orgs'' [] \<and> (1::nat) \<le> 4
        \<and> (\<forall>n<1. retryable (nth_result denied_client ?rq (length (sent []) + n)))
        \<and> session denied_client (length (sent []) + 1) ?rq = Responds denied_response \<and> \<not> busy denied_response \<longrightarrow>
       request denied_client ''GET'' ''orgs'' [] [] =
         (classify (req_url ?rq) denied_response,
          [] @ concat (map (\<lambda>n. failed_attempt ?rq (nth_result denied_client ?rq (length (sent []) + n))) [0..<1])
            @ sending ?rq)"
      by (rule conjunct2[THEN conjunct2])
    show ?thesis
      by (rule imp[THEN mp]) (intro conjI l rqd one first s nb)
  qed
  show ?thesis
    using g(1) c1 c2[of "''u''"]
    by (simp add: run c2 u sent_append sent_sending sent_failed_attempt)
qed

text \<open>
  Claim C2 as stated asks for the API error on every status outside 2xx and for the parsed
  value in every remaining case. A 300 response with a JSON list as body is returned to
  the caller, and a 200 response whose error entry carries the contention marker ends in
  a \<open>ConnectionError\<close> after the retries.
\<close>

theorem response_handling_counterexample:
  "status_code choices_response = 300 \<and> json choices_response = Some (PList []) \<and>
   fst (Client_get choices_client ''orgs'' [] []) = Inr (PList []) \<and>
   status_code busy_response = 200 \<and>
   json busy_response = Some (PDict [(''error'', PStr ''SQLITE_BUSY: database is locked'')]) \<and>
   fst (Client_get busy_client ''orgs'' [] []) =
     Inl (ConnectionError ''Grist server returned SQLITE_BUSY'')"
proof -
  let ?kw = "setdefault [] ''allow_redirects'' (PBool True)"
  have l: "\<not> skipped choices_client ''GET''" "\<not> skipped busy_client ''GET''"
    by (simp_all add: skipped_def)
  have r: "nth_result choices_client rq n = Inr (PList [])" for rq n
    by (simp add: nth_result_def choices_client_def choices_session_def choices_response_def
        classify_defs)
  have b: "nth_result busy_client rq n = Inl (ConnectionError ''Grist server returned SQLITE_BUSY'')"
    for rq n
    by (simp add: nth_result_def busy_client_def busy_session_def busy_response_def classify_defs)
  have "fst (request choices_client ''GET'' ''orgs'' ?kw []) = Inr (PList [])"
    using request_run[where k=0 and t="[]" and url="''orgs''" and kwargs="?kw", OF l(1) refl]
    by (simp add: r retryable_def)
  moreover have "fst (request busy_client ''GET'' ''orgs'' ?kw []) =
      Inl (ConnectionError ''Grist server returned SQLITE_BUSY'')"
    using request_run[where k=4 and t="[]" and url="''orgs''" and kwargs="?kw", OF l(2) refl]
    by (simp add: b retryable_def)
  ultimately show ?thesis
    by (simp add: Client_get_def choices_response_def busy_response_def)
qed

section \<open>Joining paths\<close>

lemma lstrip_empty_iff: "lstrip s = [] \<longleftrightarrow> set s \<subseteq> {slash}"
  by (auto simp: lstrip_def dropWhile_eq_Nil_conv)

lemma rstrip_empty_iff: "rstrip s = [] \<longleftrightarrow> set s \<subseteq> {slash}"
  by (auto simp: rstrip_def dropWhile_eq_Nil_conv)

lemma lstrip_append: "lstrip (a @ b) = (if lstrip a = [] then lstrip b else lstrip a @ b)"
  by (auto simp: lstrip_def dropWhile_append dropWhile_eq_Nil_conv)

lemma rstrip_append: "rstrip (a @ b) = (if rstrip b = [] then rstrip a else a @ rstrip b)"
  by (auto simp: rstrip_def dropWhile_append dropWhile_eq_Nil_conv)

lemma rstrip_idem: "rstrip (rstrip s) = rstrip s"
  by (simp add: rstrip_def dropWhile_idem)

lemma lstrip_idem: "lstrip (lstrip s) = lstrip s"
  by (simp add: lstrip_def dropWhile_idem)

lemma lstrip_Cons: "lstrip (c # s) = (if c = slash then lstrip s else c # s)"
  by (simp add: lstrip_def)

lemma rstrip_Cons: "rstrip (c # s) = (if rstrip s = [] \<and> c = slash then [] else c # rstrip s)"
  using rstrip_append[of "[c]" s] by (auto simp: rstrip_def)

lemma lstrip_Nil [simp]: "lstrip [] = []"
  by (simp add: lstrip_def)

lemma rstrip_Nil [simp]: "rstrip [] = []"
  by (simp add: rstrip_def)

lemma lstrip_slashes: "set s \<subseteq> {slash} \<Longrightarrow> lstrip s = []"
  by (simp add: lstrip_empty_iff)

lemma rstrip_slashes: "set s \<subseteq> {slash} \<Longrightarrow> rstrip s = []"
  by (simp add: rstrip_empty_iff)

lemma lstrip_rstrip: "lstrip (rstrip s) = rstrip (lstrip s)"
proof (induction s)
  case Nil
  show ?case by simp
next
  case (Cons c s)
  show ?case
  proof (cases "c = slash")
    case True
    show ?thesis
    proof (cases "rstrip s = []")
      case True
      then have "lstrip s = []" by (simp add: rstrip_empty_iff lstrip_empty_iff)
      with True \<open>c = slash\<close> show ?thesis by (simp add: lstrip_Cons rstrip_Cons)
    next
      case False
      with \<open>c = slash\<close> Cons show ?thesis by (simp add: lstrip_Cons rstrip_Cons)
    qed
  next
    case False
    then show ?thesis by (simp add: lstrip_Cons rstrip_Cons)
  qed
qed

lemma strip_empty_iff: "strip s = [] \<longleftrightarrow> set s \<subseteq> {slash}"
  unfolding strip_def lstrip_rstrip[symmetric] lstrip_empty_iff
  using rstrip_empty_iff[of s] rstrip_empty_iff[of "rstrip s"] by (simp add: rstrip_idem)


lemma rstrip_strip: "rstrip (strip s) = strip s"
  by (simp add: strip_def rstrip_idem)

lemma lstrip_strip: "lstrip (strip s) = strip s"
  by (simp add: strip_def lstrip_rstrip lstrip_idem)

lemma strip_rstrip: "strip (rstrip s) = strip s"
  by (simp add: strip_def lstrip_rstrip rstrip_idem)

lemma rstrip_last: "rstrip s \<noteq> [] \<Longrightarrow> last (rstrip s) \<noteq> slash"
  using hd_dropWhile[of "\<lambda>c. c = slash" "rev s"]
  by (simp add: rstrip_def last_rev)

lemma rstrip_join2: "rstrip (join2 a b) = rstrip a @ piece b"
  by (simp add: join2_def rstrip_append rstrip_Cons piece_def strip_def rstrip_idem)

lemma rstrip_foldl_join2: "rstrip (foldl join2 a bs) = rstrip a @ concat (map piece bs)"
  by (induction bs arbitrary: a) (simp_all add: rstrip_join2)

lemma join_urls_normalized: "join_urls a bs = normalized_join a bs"
  by (simp add: join_urls_def normalized_join_def rstrip_foldl_join2)

lemma rstrip_normalized_join: "rstrip (normalized_join a bs) = normalized_join a bs"
  unfolding join_urls_normalized[symmetric] join_urls_def by (rule rstrip_idem)

lemma piece_empty_iff: "piece s = [] \<longleftrightarrow> strip s = []"
  by (simp add: piece_def)

lemma piece_rstrip: "piece (rstrip s) = piece s"
  by (simp add: piece_def strip_rstrip)

lemma strip_glue:
  assumes "strip s \<noteq> []"
  shows "strip (rstrip b @ slash # strip s) = (if strip b = [] then strip s else strip b @ slash # strip s)"
proof (cases "strip b = []")
  case True
  then have "lstrip (rstrip b) = []" by (simp add: strip_def lstrip_rstrip)
  then have "lstrip (rstrip b @ slash # strip s) = strip s"
    by (simp add: lstrip_append lstrip_Cons lstrip_strip)
  then show ?thesis using True by (simp add: strip_def[of "rstrip b @ slash # strip s"] rstrip_strip)
next
  case False
  then have ne: "lstrip (rstrip b) \<noteq> []" by (simp add: strip_def lstrip_rstrip)
  have "lstrip (rstrip b @ slash # strip s) = strip b @ slash # strip s"
    using ne by (simp add: lstrip_append) (simp add: strip_def lstrip_rstrip)
  moreover have "rstrip (strip b @ slash # strip s) = strip b @ slash # strip s"
    using assms by (simp add: rstrip_append rstrip_Cons rstrip_strip)
  ultimately show ?thesis
    using False by (simp add: strip_def[of "rstrip b @ slash # strip s"])
qed

lemma next_cursor_eq:
  "next_cursor b s = (if rstrip b @ piece s \<noteq> [] then rstrip b @ piece s else b)"
  by (simp add: next_cursor_def join_urls_normalized normalized_join_def Let_def)

lemma piece_next_cursor: "piece (next_cursor b s) = piece b @ piece s"
proof (cases "strip s = []")
  case True
  then have ps: "piece s = []" by (simp add: piece_def)
  show ?thesis
  proof (cases "rstrip b = []")
    case True
    then show ?thesis using ps by (simp add: next_cursor_eq)
  next
    case False
    then show ?thesis using ps by (simp add: next_cursor_eq piece_rstrip)
  qed
next
  case False
  then have ps: "piece s = slash # strip s" by (simp add: piece_def)
  have "next_cursor b s = rstrip b @ slash # strip s"
    by (simp add: next_cursor_eq ps)
  then show ?thesis
    using strip_glue[OF False, of b] False
    by (simp add: piece_def)
qed

lemma strip_prefix_no_clash: "\<not> clash srv x \<Longrightarrow> strip_prefix x srv = x"
  by (auto simp: clash_def strip_prefix_def)

lemma truediv_eq:
  "truediv c s = Client_init (server c) (next_cursor (base_url c) s) (session c) (dryrun c)"
  by (simp add: truediv_def Client_at_def next_cursor_def Let_def)

lemma server_truediv: "server (truediv c s) = server c"
  by (simp add: truediv_eq Client_init_def)

lemma base_url_truediv:
  "\<not> clash (server c) (next_cursor (base_url c) s) \<Longrightarrow>
   base_url (truediv c s) = next_cursor (base_url c) s"
  by (simp add: truediv_eq Client_init_def strip_prefix_no_clash)

lemma descend_cursor:
  "prefix_free (server c) (base_url c) segs \<Longrightarrow>
   server (descend c segs) = server c \<and>
   piece (base_url (descend c segs)) = piece (base_url c) @ concat (map piece segs)"
proof (induction segs arbitrary: c)
  case Nil
  then show ?case by (simp add: descend_def)
next
  case (Cons s segs)
  let ?c = "truediv c s"
  from Cons.prems have nc: "\<not> clash (server c) (next_cursor (base_url c) s)"
    and pf: "prefix_free (server c) (next_cursor (base_url c) s) segs" by simp_all
  have b: "base_url ?c = next_cursor (base_url c) s" using nc by (rule base_url_truediv)
  have "prefix_free (server ?c) (base_url ?c) segs" using pf by (simp add: b server_truediv)
  from Cons.IH[OF this] show ?case
    by (simp add: descend_def server_truediv b piece_next_cursor)
qed

lemma request_url_normalized:
  "req_url (built_request c method url kwargs) = rstrip (server c) @ piece (base_url c) @ piece url"
proof -
  have "join_urls (full_url c) [url] = rstrip (normalized_join (server c) [base_url c]) @ piece url"
    by (simp add: full_url_def join_urls_normalized normalized_join_def)
  then show ?thesis
    by (simp add: built_request_def rstrip_normalized_join) (simp add: normalized_join_def)
qed

lemmas cursor_defs = descend_def truediv_def Client_at_def Client_init_def strip_prefix_def
  next_cursor_def clash_def parent_def rsplit_first_def built_request_def

text \<open>
  Claim C5, as the code has it. \<^verbatim>\<open>join_urls\<close> strips slashes only at the ends of its
  arguments, and the constructor cuts a cursor that starts with the server address. For a
  chain of descents along which no cursor starts with the server address, the URL a
  request resolves to is the server address without its trailing slashes followed, for the
  starting cursor, each descent and the call's path in turn, by one slash and the segment
  without its leading and trailing slashes (nothing for a segment made of slashes only).
  Slashes inside a segment stay as they are. The URL never ends with a slash.
\<close>

theorem resolved_url:
  "prefix_free (server c) (base_url c) segs \<Longrightarrow>
   req_url (built_request (descend c segs) method url kwargs) =
     normalized_join (server c) (base_url c # segs @ [url])
   \<and> (req_url (built_request (descend c segs) method url kwargs) = [] \<or>
      last (req_url (built_request (descend c segs) method url kwargs)) \<noteq> slash)"
proof -
  assume pf: "prefix_free (server c) (base_url c) segs"
  have eq: "req_url (built_request (descend c segs) method url kwargs) =
     normalized_join (server c) (base_url c # segs @ [url])"
    using descend_cursor[OF pf] by (simp add: request_url_normalized normalized_join_def)
  have "rstrip (normalized_join (server c) (base_url c # segs @ [url])) =
      normalized_join (server c) (base_url c # segs @ [url])"
    by (rule rstrip_normalized_join)
  then have "normalized_join (server c) (base_url c # segs @ [url]) = [] \<or>
      last (normalized_join (server c) (base_url c # segs @ [url])) \<noteq> slash"
    using rstrip_last[of "normalized_join (server c) (base_url c # segs @ [url])"] by auto
  with eq show ?thesis by simp
qed

theorem resolved_url_witness:
  "prefix_free (server steady_client) (base_url steady_client) [''docs/'', ''/7'', ''tables''] \<and>
   req_url (built_request (descend steady_client [''docs/'', ''/7'', ''tables'']) ''GET'' ''/columns/'' []) =
     ''https://docs.getgrist.com/api/docs/7/tables/columns''"
proof -
  have pf: "prefix_free (server steady_client) (base_url steady_client) [''docs/'', ''/7'', ''tables'']"
    by (simp add: steady_client_def url_defs next_cursor_def clash_def)
  have nj: "normalized_join (server steady_client)
        (base_url steady_client # [''docs/'', ''/7'', ''tables''] @ [''/columns/'']) =
      ''https://docs.getgrist.com/api/docs/7/tables/columns''"
    by (simp add: steady_client_def normalized_join_def piece_def strip_def url_defs)
  show ?thesis
    using resolved_url[OF pf, of "''GET''" "''/columns/''" "[]"] pf nj by simp
qed

text \<open>
  Claim C5 as stated promises a URL free of duplicate slashes whatever the segments. A call
  path with two slashes inside keeps both, and a cursor that starts with the server address
  loses that part.
\<close>

theorem resolved_url_counterexample:
  "req_url (built_request (descend steady_client [''docs'']) ''GET'' ''a//b'' []) =
     ''https://docs.getgrist.com/api/docs/a//b'' \<and>
   req_url (built_request (descend odd_client [''api'']) ''GET'' ''orgs'' []) = ''grist/api/orgs'' \<and>
   normalized_join (server odd_client) (base_url odd_client # [''api''] @ [''orgs'']) =
     ''grist/grist/api/orgs''"
  by (simp add: steady_client_def odd_client_def cursor_defs url_defs normalized_join_def
      piece_def strip_def)

section \<open>Descending and ascending\<close>

lemma rsplit_first_glue:
  assumes "slash \<notin> set t"
  shows "rsplit_first (a @ slash # t) = a"
proof -
  have "dropWhile (\<lambda>c. c \<noteq> slash) (rev t @ slash # rev a) = dropWhile (\<lambda>c. c \<noteq> slash) (slash # rev a)"
    using assms by (intro dropWhile_append2) auto
  then show ?thesis by (simp add: rsplit_first_def)
qed

lemma rsplit_first_Nil: "rsplit_first [] = []"
  by (simp add: rsplit_first_def)

lemma Client_init_self: "\<not> clash (server c) (base_url c) \<Longrightarrow>
  Client_init (server c) (base_url c) (session c) (dryrun c) = c"
  by (simp add: Client_init_def strip_prefix_no_clash)

lemma full_url_rstrip: "full_url (c\<lparr>base_url := rstrip (base_url c)\<rparr>) = full_url c"
  by (simp add: full_url_def join_urls_normalized normalized_join_def piece_rstrip)

text \<open>
  Claim C6, as the code has it. Let \<open>S\<close> be a single segment (something other than slashes,
  no slash inside once its ends are stripped) and let the cursor reached by descending
  into \<open>S\<close> not start with the server address. When the client's cursor \<open>P\<close> has something
  other than slashes, descending into \<open>S\<close> and ascending once gives the same client with the
  cursor \<open>P\<close> without its trailing slashes, and the same full URL. When \<open>P\<close> is the root (empty
  or slashes only), the descent gives the cursor \<open>/S\<close> and ascending from there changes
  nothing; ascending the root itself changes nothing either, provided the root cursor does
  not start with the server address.
\<close>

theorem descend_then_parent:
  "strip S \<noteq> [] \<Longrightarrow> slash \<notin> set (strip S) \<Longrightarrow>
   \<not> clash (server c) (next_cursor (base_url c) S) \<Longrightarrow>
   (rstrip (base_url c) \<noteq> [] \<longrightarrow>
      parent (truediv c S) = c\<lparr>base_url := rstrip (base_url c)\<rparr> \<and>
      full_url (parent (truediv c S)) = full_url c)
   \<and> (rstrip (base_url c) = [] \<longrightarrow>
      base_url (truediv c S) = slash # strip S \<and> parent (truediv c S) = truediv c S)
   \<and> (rstrip (base_url c) = [] \<and> \<not> clash (server c) (base_url c) \<longrightarrow> parent c = c)"
proof -
  assume S: "strip S \<noteq> []" and single: "slash \<notin> set (strip S)"
    and nc: "\<not> clash (server c) (next_cursor (base_url c) S)"
  let ?b = "base_url c"
  let ?j = "rstrip ?b @ slash # strip S"
  let ?c' = "truediv c S"
  have j: "next_cursor ?b S = ?j" using S by (simp add: next_cursor_eq piece_def)
  have c': "?c' = \<lparr>dryrun = dryrun c, server = server c, base_url = ?j, session = session c\<rparr>"
    using nc by (simp add: truediv_eq Client_init_def strip_prefix_no_clash j)
  have rj: "rstrip ?j = ?j" using S by (simp add: rstrip_append rstrip_Cons rstrip_strip)
  have up: "rsplit_first (rstrip ?j) = rstrip ?b"
    unfolding rj using single by (rule rsplit_first_glue)
  have par: "parent ?c' =
      Client_init (server c) (if rstrip ?b \<noteq> [] then rstrip ?b else ?j) (session c) (dryrun c)"
    by (simp add: parent_def Client_at_def c' up)
  have nc2: "\<not> clash (server c) (rstrip ?b)"
  proof
    assume "clash (server c) (rstrip ?b)"
    then have "clash (server c) ?j" by (auto simp: clash_def)
    with nc j show False by simp
  qed
  have A: "rstrip ?b \<noteq> [] \<longrightarrow>
      parent ?c' = c\<lparr>base_url := rstrip ?b\<rparr> \<and> full_url (parent ?c') = full_url c"
  proof
    assume ne: "rstrip ?b \<noteq> []"
    have "parent ?c' = c\<lparr>base_url := rstrip ?b\<rparr>"
      using ne nc2 by (simp add: par Client_init_def strip_prefix_no_clash)
    then show "parent ?c' = c\<lparr>base_url := rstrip ?b\<rparr> \<and> full_url (parent ?c') = full_url c"
      by (simp add: full_url_rstrip)
  qed
  have B: "rstrip ?b = [] \<longrightarrow> base_url ?c' = slash # strip S \<and> parent ?c' = ?c'"
  proof
    assume e: "rstrip ?b = []"
    have "\<not> clash (server c) ?j" using nc j by simp
    then have "Client_init (server c) ?j (session c) (dryrun c) = ?c'"
      by (simp add: c' Client_init_def strip_prefix_no_clash)
    moreover have "parent ?c' = Client_init (server c) ?j (session c) (dryrun c)"
      unfolding par using e by simp
    ultimately have "parent ?c' = ?c'" by simp
    moreover have "base_url ?c' = slash # strip S" using e by (simp add: c')
    ultimately show "base_url ?c' = slash # strip S \<and> parent ?c' = ?c'" by simp
  qed
  have C: "rstrip ?b = [] \<and> \<not> clash (server c) ?b \<longrightarrow> parent c = c"
    by (simp add: parent_def Client_at_def rsplit_first_Nil Client_init_self)
  from A B C show ?thesis by blast
qed

theorem descend_then_parent_witness:
  "strip ''orgs'' \<noteq> [] \<and> slash \<notin> set (strip ''orgs'') \<and>
   \<not> clash (server steady_client) (next_cursor (base_url steady_client) ''orgs'') \<and>
   rstrip (base_url steady_client) \<noteq> [] \<and>
   parent (truediv steady_client ''orgs'') = steady_client\<lparr>base_url := ''/api''\<rparr> \<and>
   full_url (parent (truediv steady_client ''orgs'')) = full_url steady_client"
proof -
  have h: "strip ''orgs'' \<noteq> []" "slash \<notin> set (strip ''orgs'')"
    "\<not> clash (server steady_client) (next_cursor (base_url steady_client) ''orgs'')"
    "rstrip (base_url steady_client) \<noteq> []"
    by (simp_all add: strip_def url_defs steady_client_def next_cursor_def clash_def)
  have r: "rstrip (base_url steady_client) = ''/api''"
    by (simp add: url_defs steady_client_def)
  have f: "full_url (steady_client\<lparr>base_url := ''/api''\<rparr>) = full_url steady_client"
    by (simp add: url_defs steady_client_def)
  show ?thesis
    using descend_then_parent[OF h(1,2,3)] h by (simp add: r f)
qed

text \<open>
  Claim C6 as stated returns exactly \<open>P\<close>. The default cursor \<^verbatim>\<open>/api/\<close> comes back as
  \<^verbatim>\<open>/api\<close>.
\<close>

theorem descend_then_parent_counterexample:
  "base_url steady_client = ''/api/'' \<and>
   base_url (parent (truediv steady_client ''orgs'')) = ''/api''"
  by (simp add: steady_client_def cursor_defs url_defs)

section \<open>Listing records and attachments\<close>

text \<open>
  Claim C8. The query parameters of \<^verbatim>\<open>list\<close> on the records and attachments collections
  hold, in this order, \<^verbatim>\<open>filters\<close>, \<^verbatim>\<open>sort_by\<close> and \<^verbatim>\<open>limit\<close>, each one exactly when it was
  passed: an omitted option is no key at all, a passed one is a key whatever its value
  (\<^verbatim>\<open>None\<close> and the empty string included). The filters go out as the string
  \<^verbatim>\<open>json.dumps\<close> makes of them, the other two as they were given. The call is a GET on the
  collection's own path with these parameters.
\<close>

theorem list_query_parameters:
  "list_params filters sort_by limit =
     (case filters of UNSET \<Rightarrow> [] | Passed f \<Rightarrow> [(''filters'', PStr (json_dumps f))]) @
     (case sort_by of UNSET \<Rightarrow> [] | Passed v \<Rightarrow> [(''sort_by'', v)]) @
     (case limit of UNSET \<Rightarrow> [] | Passed v \<Rightarrow> [(''limit'', v)])
   \<and> map_of (list_params filters sort_by limit) ''filters'' =
       (case filters of UNSET \<Rightarrow> None | Passed f \<Rightarrow> Some (PStr (json_dumps f)))
   \<and> map_of (list_params filters sort_by limit) ''sort_by'' =
       (case sort_by of UNSET \<Rightarrow> None | Passed v \<Rightarrow> Some v)
   \<and> map_of (list_params filters sort_by limit) ''limit'' =
       (case limit of UNSET \<Rightarrow> None | Passed v \<Rightarrow> Some v)
   \<and> WithListRecords_list c filters sort_by limit =
       request c ''GET'' []
         [(''params'', PDict (list_params filters sort_by limit)), (''allow_redirects'', PBool True)]"
proof -
  have eq: "list_params filters sort_by limit =
     (case filters of UNSET \<Rightarrow> [] | Passed f \<Rightarrow> [(''filters'', PStr (json_dumps f))]) @
     (case sort_by of UNSET \<Rightarrow> [] | Passed v \<Rightarrow> [(''sort_by'', v)]) @
     (case limit of UNSET \<Rightarrow> [] | Passed v \<Rightarrow> [(''limit'', v)])"
    by (cases filters; cases sort_by; cases limit) (simp_all add: list_params_def dict_set_def)
  have call: "WithListRecords_list c filters sort_by limit =
       request c ''GET'' []
         [(''params'', PDict (list_params filters sort_by limit)), (''allow_redirects'', PBool True)]"
    by (simp add: WithListRecords_list_def Client_get_def setdefault_def)
  have m1: "map_of (list_params filters sort_by limit) ''filters'' =
       (case filters of UNSET \<Rightarrow> None | Passed f \<Rightarrow> Some (PStr (json_dumps f)))"
    unfolding eq by (cases filters; cases sort_by; cases limit) simp_all
  have m2: "map_of (list_params filters sort_by limit) ''sort_by'' =
       (case sort_by of UNSET \<Rightarrow> None | Passed v \<Rightarrow> Some v)"
    unfolding eq by (cases filters; cases sort_by; cases limit) simp_all
  have m3: "map_of (list_params filters sort_by limit) ''limit'' =
       (case limit of UNSET \<Rightarrow> None | Passed v \<Rightarrow> Some v)"
    unfolding eq by (cases filters; cases sort_by; cases limit) simp_all
  from eq m1 m2 m3 call show ?thesis by blast
qed

theorem list_query_parameters_witness:
  "list_params (Passed (PDict [(''pet'', PList [PStr ''cat'', PStr ''dog''])]))
       (Passed (PStr ''pet,-age'')) (Passed (PInt 5)) =
     [(''filters'', PStr (json_dumps (PDict [(''pet'', PList [PStr ''cat'', PStr ''dog''])]))),
      (''sort_by'', PStr ''pet,-age''), (''limit'', PInt 5)] \<and>
   json_dumps (PDict [(''pet'', PList [PStr ''cat'', PStr ''dog''])]) =
     [CHR ''{'', CHR 0x22] @ ''pet'' @ [CHR 0x22] @ '': ['' @ [CHR 0x22] @ ''cat'' @ [CHR 0x22] @
     '', '' @ [CHR 0x22] @ ''dog'' @ [CHR 0x22] @ '']}'' \<and>
   list_params (Passed PNone) UNSET (Passed (PStr [])) =
     [(''filters'', PStr ''null''), (''limit'', PStr [])] \<and>
   map_of (list_params UNSET UNSET UNSET) ''filters'' = None"
  using list_query_parameters[of "Passed (PDict [(''pet'', PList [PStr ''cat'', PStr ''dog''])])"
      "Passed (PStr ''pet,-age'')" "Passed (PInt 5)"]
    list_query_parameters[of "Passed PNone" UNSET "Passed (PStr [])"]
    list_query_parameters[of UNSET UNSET UNSET]
  by (simp add: json_string_def json_char_def)

section \<open>Creating and modifying records\<close>

lemma steady_request:
  assumes "session c = steady_session" "\<not> skipped c method"
  shows "request c method url kwargs t =
     (Inr (PDict [(''id'', PInt 7)]), t @ sending (built_request c method url kwargs))"
proof -
  have r: "nth_result c rq n = Inr (PDict [(''id'', PInt 7)])" for rq n
    by (simp add: nth_result_def assms(1) steady_session_def classify_defs)
  show ?thesis
    using request_run[where k=0 and t=t and url=url and kwargs=kwargs, OF assms(2) refl]
    by (simp add: r retryable_def)
qed

lemma pop_ids_missing:
  "\<exists>r\<in>set records. map_of (h r) ''id'' = None \<Longrightarrow>
   \<exists>h'. pop_ids records h = (Inl (KeyError ''id''), h')"
proof (induction records arbitrary: h)
  case Nil
  then show ?case by simp
next
  case (Cons r records)
  show ?case
  proof (cases "map_of (h r) ''id''")
    case None
    then show ?thesis by simp
  next
    case (Some v)
    let ?h = "h(r := dict_pop (h r) ''id'')"
    from Cons.prems Some obtain r' where r': "r' \<in> set records" "map_of (h r') ''id'' = None"
      by auto
    then have "r' \<noteq> r" using Some by auto
    then have "map_of (?h r') ''id'' = None" using r'(2) by simp
    with r'(1) have "\<exists>r\<in>set records. map_of (?h r) ''id'' = None" by blast
    from Cons.IH[OF this] obtain h' where "pop_ids records ?h = (Inl (KeyError ''id''), h')"
      by blast
    then show ?thesis using Some by simp
  qed
qed

lemma pop_ids_present:
  "distinct records \<Longrightarrow> \<forall>r\<in>set records. map_of (h r) ''id'' \<noteq> None \<Longrightarrow>
   pop_ids records h = (Inr (map (\<lambda>r. (dict_get (h r) ''id'', r)) records), popped records h)"
proof (induction records arbitrary: h)
  case Nil
  then show ?case by (simp add: popped_def)
next
  case (Cons r records)
  let ?h = "h(r := dict_pop (h r) ''id'')"
  from Cons.prems obtain v where v: "map_of (h r) ''id'' = Some v" by auto
  have notin: "r \<notin> set records" and d: "distinct records" using Cons.prems by simp_all
  have pres: "\<forall>r'\<in>set records. map_of (?h r') ''id'' \<noteq> None"
    using Cons.prems notin by auto
  have ih: "pop_ids records ?h =
      (Inr (map (\<lambda>r. (dict_get (?h r) ''id'', r)) records), popped records ?h)"
    by (rule Cons.IH[OF d pres])
  have m: "map (\<lambda>r'. (dict_get (?h r') ''id'', r')) records =
           map (\<lambda>r'. (dict_get (h r') ''id'', r')) records"
    using notin by (intro map_cong) auto
  have p: "popped records ?h = popped (r # records) h"
    using notin by (auto simp: popped_def fun_eq_iff)
  have "pop_ids (r # records) h =
      (Inr ((v, r) # map (\<lambda>r. (dict_get (?h r) ''id'', r)) records), popped records ?h)"
    by (simp only: pop_ids.simps v option.case ih prod.case sum.case)
  also have "\<dots> = (Inr ((v, r) # map (\<lambda>r. (dict_get (h r) ''id'', r)) records), popped (r # records) h)"
    by (simp only: m p)
  also have "(v, r) # map (\<lambda>r. (dict_get (h r) ''id'', r)) records =
      map (\<lambda>r. (dict_get (h r) ''id'', r)) (r # records)"
    using v by (simp add: dict_get_def)
  finally show ?case .
qed

text \<open>
  What \<^verbatim>\<open>Records.modify\<close> does on lists of distinct objects. When one of the mappings has
  no \<^verbatim>\<open>id\<close>, the call ends with \<^verbatim>\<open>KeyError('id')\<close> and the trace is as it was: nothing
  was sent or logged (this half needs no distinctness). When the mappings are distinct
  objects and each has an \<^verbatim>\<open>id\<close>, the call is a PATCH whose JSON body lists, for each
  mapping in order, its \<^verbatim>\<open>id\<close> beside a \<^verbatim>\<open>fields\<close> envelope with the rest of the mapping.
\<close>

theorem modify_hoists_id:
  "((\<exists>r\<in>set records. map_of (h r) ''id'' = None) \<longrightarrow>
      (\<exists>h'. Records_modify c records parse_strings (h, t) = (Inl (KeyError ''id''), h', t)))
   \<and> (distinct records \<and> (\<forall>r\<in>set records. map_of (h r) ''id'' \<noteq> None) \<longrightarrow>
      Records_modify c records parse_strings (h, t) =
        (fst (Client_patch c [] [(''json'', PDict [(''records'', PList (map (\<lambda>r. hoisted (h r)) records))]),
                                 (''params'', PDict (noparse parse_strings))] t),
         popped records h,
         snd (Client_patch c [] [(''json'', PDict [(''records'', PList (map (\<lambda>r. hoisted (h r)) records))]),
                                 (''params'', PDict (noparse parse_strings))] t)))"
proof (intro conjI impI)
  assume "\<exists>r\<in>set records. map_of (h r) ''id'' = None"
  from pop_ids_missing[OF this] obtain h' where "pop_ids records h = (Inl (KeyError ''id''), h')"
    by blast
  then have "Records_modify c records parse_strings (h, t) = (Inl (KeyError ''id''), h', t)"
    by (simp add: Records_modify_def)
  then show "\<exists>h'. Records_modify c records parse_strings (h, t) = (Inl (KeyError ''id''), h', t)"
    by blast
next
  assume a: "distinct records \<and> (\<forall>r\<in>set records. map_of (h r) ''id'' \<noteq> None)"
  then have pop: "pop_ids records h =
      (Inr (map (\<lambda>r. (dict_get (h r) ''id'', r)) records), popped records h)"
    by (intro pop_ids_present) auto
  have pay: "map (\<lambda>p. PDict [(''id'', fst p), (''fields'', PDict (popped records h (snd p)))])
               (map (\<lambda>r. (dict_get (h r) ''id'', r)) records) =
             map (\<lambda>r. hoisted (h r)) records"
    by (simp add: hoisted_def popped_def)
  show "Records_modify c records parse_strings (h, t) =
        (fst (Client_patch c [] [(''json'', PDict [(''records'', PList (map (\<lambda>r. hoisted (h r)) records))]),
                                 (''params'', PDict (noparse parse_strings))] t),
         popped records h,
         snd (Client_patch c [] [(''json'', PDict [(''records'', PList (map (\<lambda>r. hoisted (h r)) records))]),
                                 (''params'', PDict (noparse parse_strings))] t))"
    by (simp add: Records_modify_def pop pay split_def Let_def del: map_map)
qed

theorem modify_hoists_id_witness:
  "distinct [0::nat] \<and> map_of (pets_heap 0) ''id'' \<noteq> None \<and>
   sent (snd (snd (Records_modify records_client [0] True (pets_heap, [])))) =
     [\<lparr>req_method = ''PATCH'',
       req_url = ''https://docs.getgrist.com/api/docs/789/tables/Table1/records'',
       req_kwargs = [(''json'', PDict [(''records'',
                        PList [PDict [(''id'', PInt 1), (''fields'', PDict [(''age'', PInt 4)])]])]),
                     (''params'', PDict [])]\<rparr>] \<and>
   map_of (pets_heap 1) ''id'' = None \<and>
   fst (Records_modify records_client [0, 1] True (pets_heap, [])) = Inl (KeyError ''id'') \<and>
   snd (snd (Records_modify records_client [0, 1] True (pets_heap, []))) = []"
proof -
  have h0: "distinct [0::nat] \<and> (\<forall>r\<in>set [0::nat]. map_of (pets_heap r) ''id'' \<noteq> None)"
    by (simp add: pets_heap_def)
  have h1: "\<exists>r\<in>set [0, 1::nat]. map_of (pets_heap r) ''id'' = None"
    by (simp add: pets_heap_def)
  have l: "session records_client = steady_session" "\<not> skipped records_client ''PATCH''"
    by (simp_all add: records_client_def skipped_def)
  have u: "join_urls (full_url records_client) [''''] =
      ''https://docs.getgrist.com/api/docs/789/tables/Table1/records''"
    by (simp add: records_client_def url_defs)
  have good: "Records_modify records_client [0] True (pets_heap, []) =
        (fst (Client_patch records_client [] [(''json'', PDict [(''records'', PList (map (\<lambda>r. hoisted (pets_heap r)) [0]))]),
                                 (''params'', PDict (noparse True))] []),
         popped [0] pets_heap,
         snd (Client_patch records_client [] [(''json'', PDict [(''records'', PList (map (\<lambda>r. hoisted (pets_heap r)) [0]))]),
                                 (''params'', PDict (noparse True))] []))"
    using modify_hoists_id[of "[0]" pets_heap records_client True "[]"] h0 by blast
  obtain h' where bad: "Records_modify records_client [0, 1] True (pets_heap, []) =
      (Inl (KeyError ''id''), h', [])"
    using modify_hoists_id[of "[0, 1]" pets_heap records_client True "[]"] h1 by blast
  have hz: "hoisted (pets_heap 0) = PDict [(''id'', PInt 1), (''fields'', PDict [(''age'', PInt 4)])]"
    by (simp add: hoisted_def pets_heap_def dict_get_def dict_pop_def)
  have m: "map_of (pets_heap 0) ''id'' \<noteq> None" "map_of (pets_heap 1) ''id'' = None"
    by (simp_all add: pets_heap_def)
  show ?thesis
    using good bad m
    by (simp add: Client_patch_def steady_request[OF l] sent_append sent_sending
        built_request_def u hz noparse_def)
qed

text \<open>
  Claim C9 fails on a list that holds the same mapping twice. In
  \<^verbatim>\<open>records.modify([m, m])\<close> with \<^verbatim>\<open>m = {"id": 1, "age": 4}\<close> every mapping of the list
  carries \<^verbatim>\<open>id\<close>, but the first \<^verbatim>\<open>record.pop("id")\<close> takes the key out of the caller's
  object, so the second raises \<^verbatim>\<open>KeyError('id')\<close>: nothing is hoisted and nothing is sent.
  The in-place \<^verbatim>\<open>pop\<close> is the defect of claim C7.
\<close>

theorem modify_same_mapping_twice:
  "map_of (pets_heap 0) ''id'' = Some (PInt 1) \<and>
   fst (Records_modify records_client [0, 0] True (pets_heap, [])) = Inl (KeyError ''id'') \<and>
   snd (snd (Records_modify records_client [0, 0] True (pets_heap, []))) = [] \<and>
   fst (snd (Records_modify records_client [0, 0] True (pets_heap, []))) 0 = [(''age'', PInt 4)]"
  by (simp add: Records_modify_def pets_heap_def dict_pop_def)

lemma Records_modify_heap:
  "fst (snd (Records_modify c records parse_strings (h, t))) = snd (pop_ids records h)"
  by (simp add: Records_modify_def split_def Let_def split: sum.splits prod.splits)

text \<open>
  Claim C7 fails on \<^verbatim>\<open>Records.modify\<close>: \<^verbatim>\<open>record.pop("id")\<close> works on the caller's own
  mapping. After \<^verbatim>\<open>records.modify([{"id": 1, "age": 4}])\<close> the caller's mapping is
  \<^verbatim>\<open>{"age": 4}\<close>, with dry-run on as well; \<^verbatim>\<open>Records.create\<close> on the same mapping leaves
  it as it was.
\<close>

theorem modify_pops_caller_mapping:
  "pets_heap 0 = [(''id'', PInt 1), (''age'', PInt 4)] \<and>
   fst (snd (Records_modify records_client [0] True (pets_heap, []))) 0 = [(''age'', PInt 4)] \<and>
   fst (snd (Records_modify (records_client\<lparr>dryrun := True\<rparr>) [0] True (pets_heap, []))) 0 =
     [(''age'', PInt 4)] \<and>
   fst (snd (Records_create records_client [0] True (pets_heap, []))) 0 =
     [(''id'', PInt 1), (''age'', PInt 4)]"
  by (simp add: Records_modify_heap Records_create_def pets_heap_def dict_pop_def split_def Let_def)

section \<open>What the proxies return\<close>

text \<open>
  Claim C10 fails on \<^verbatim>\<open>Records.delete\<close>: its body calls the transport and has no
  \<^verbatim>\<open>return\<close>. Where the transport returns a JSON dict for the forwarded POST, the method
  returns \<^verbatim>\<open>None\<close>; \<^verbatim>\<open>Org.delete\<close>, written with \<^verbatim>\<open>return\<close>, hands the transport's value
  on.
\<close>

theorem Records_delete_drops_result:
  "fst (Client_post (parent records_client) ''data/delete'' [] []) = Inr (PDict [(''id'', PInt 7)]) \<and>
   fst (Records_delete records_client []) = Inr PNone \<and>
   fst (Org_delete records_client []) = Inr (PDict [(''id'', PInt 7)])"
proof -
  have p: "session (parent records_client) = steady_session"
    "\<not> skipped (parent records_client) ''POST''"
    by (simp_all add: parent_def Client_at_def Client_init_def records_client_def skipped_def)
  have l: "session records_client = steady_session" "\<not> skipped records_client ''DELETE''"
    by (simp_all add: records_client_def skipped_def)
  show ?thesis
    by (simp add: Records_delete_def Org_delete_def Client_post_def Client_delete_def
        steady_request[OF p] steady_request[OF l])
qed

end
